theory Spec2Isabelle
  imports
    Main
    "HOL-Library.Finite_Map"
    "HOL-Library.Char_ord"
    "HOL-Library.List_Lexorder"
begin

section \<open>Go strings\<close>

text \<open>
  A Go \<open>string\<close> is a sequence of bytes; it is modelled as \<^typ>\<open>string\<close>, a list of
  8-bit characters.  \<open>len\<close> is \<^const>\<open>length\<close>, the slice \<open>s[:i]\<close> is \<open>take i s\<close> and
  \<open>s[i:]\<close> is \<open>drop i s\<close>.  Strings are compared byte by byte (\<open>Char_ord\<close>,
  \<open>List_Lexorder\<close>), as Go's \<open><\<close> on strings does.
\<close>

definition HasPrefix :: "string \<Rightarrow> string \<Rightarrow> bool" where
  "HasPrefix s p = (take (length p) s = p)"

definition TrimPrefix :: "string \<Rightarrow> string \<Rightarrow> string" where
  "TrimPrefix s p = (if HasPrefix s p then drop (length p) s else s)"

definition HasSuffix :: "string \<Rightarrow> string \<Rightarrow> bool" where
  "HasSuffix s p = (length p \<le> length s \<and> drop (length s - length p) s = p)"

definition TrimSuffix :: "string \<Rightarrow> string \<Rightarrow> string" where
  "TrimSuffix s p = (if HasSuffix s p then take (length s - length p) s else s)"

text \<open>\<open>strings.Index(s, sub)\<close>: the first position of \<open>sub\<close> in \<open>s\<close>; Go's \<open>-1\<close> is \<open>None\<close>.\<close>

fun Index :: "string \<Rightarrow> string \<Rightarrow> nat option" where
  "Index [] sub = (if sub = [] then Some 0 else None)"
| "Index (c # cs) sub =
     (if HasPrefix (c # cs) sub then Some 0 else map_option Suc (Index cs sub))"

text \<open>
  \<open>strings.Split(s, sep)\<close> for a separator of one byte (every call in the program passes
  \<open>","\<close>, \<open>"."\<close> or \<open>"/"\<close>): the pieces between the separators, at least one piece.
\<close>

function Split :: "string \<Rightarrow> char \<Rightarrow> string list" where
  "Split s sep =
     (case dropWhile (\<lambda>c. c \<noteq> sep) s of
        [] \<Rightarrow> [s]
      | _ # rest \<Rightarrow> takeWhile (\<lambda>c. c \<noteq> sep) s # Split rest sep)"
  by pat_completeness auto
termination
proof (relation "measure (\<lambda>(s, sep). length s)")
  show "wf (measure (\<lambda>(s, sep). length s))" by simp
next
  fix s :: string and sep x21 x22
  assume h: "dropWhile (\<lambda>c. c \<noteq> sep) s = x21 # x22"
  have "length (dropWhile (\<lambda>c. c \<noteq> sep) s) \<le> length s"
    by (rule length_dropWhile_le)
  with h show "((x22, sep), (s, sep)) \<in> measure (\<lambda>(s, sep). length s)"
    by simp
qed

declare Split.simps [simp del]

subsection \<open>White space\<close>

text \<open>
  \<open>strings.TrimSpace\<close> removes leading and trailing white space as Unicode defines it,
  reading the string as UTF-8.  The white-space code points are U+0009..U+000D, U+0020,
  U+0085, U+00A0, U+1680, U+2000..U+200A, U+2028, U+2029, U+202F, U+205F and U+3000.
  \<open>space_width s\<close> is the number of bytes of the white-space code point encoded at the
  head of \<open>s\<close> (0 when there is none), \<open>space_width_last\<close> the same at the end.
\<close>

definition asciiSpace :: "char \<Rightarrow> bool" where
  "asciiSpace c = (c = CHR 0x09 \<or> c = CHR 0x0A \<or> c = CHR 0x0B \<or> c = CHR 0x0C
                   \<or> c = CHR 0x0D \<or> c = CHR 0x20)"

definition space3 :: "char \<Rightarrow> char \<Rightarrow> char \<Rightarrow> bool" where
  "space3 a b c =
     ((a = CHR 0xE1 \<and> b = CHR 0x9A \<and> c = CHR 0x80)
      \<or> (a = CHR 0xE2 \<and> b = CHR 0x80
          \<and> ((CHR 0x80 \<le> c \<and> c \<le> CHR 0x8A) \<or> c = CHR 0xA8 \<or> c = CHR 0xA9 \<or> c = CHR 0xAF))
      \<or> (a = CHR 0xE2 \<and> b = CHR 0x81 \<and> c = CHR 0x9F)
      \<or> (a = CHR 0xE3 \<and> b = CHR 0x80 \<and> c = CHR 0x80))"

definition space2 :: "char \<Rightarrow> char \<Rightarrow> bool" where
  "space2 a b = (a = CHR 0xC2 \<and> (b = CHR 0x85 \<or> b = CHR 0xA0))"

fun space_width :: "string \<Rightarrow> nat" where
  "space_width (a # b # c # _) =
     (if asciiSpace a then 1 else if space2 a b then 2 else if space3 a b c then 3 else 0)"
| "space_width [a, b] = (if asciiSpace a then 1 else if space2 a b then 2 else 0)"
| "space_width [a] = (if asciiSpace a then 1 else 0)"
| "space_width [] = 0"

definition space_width_last :: "string \<Rightarrow> nat" where
  "space_width_last s =
     (case rev s of
        c # b # a # _ \<Rightarrow>
          (if asciiSpace c then 1 else if space2 b c then 2 else if space3 a b c then 3 else 0)
      | [c, b] \<Rightarrow> (if asciiSpace c then 1 else if space2 b c then 2 else 0)
      | [c] \<Rightarrow> (if asciiSpace c then 1 else 0)
      | [] \<Rightarrow> 0)"

lemma space_width_le: "space_width s \<le> length s"
  by (induction s rule: space_width.induct) auto

lemma space_width_last_le: "space_width_last s \<le> length s"
  by (cases "rev s" rule: space_width.cases)
     (auto simp: space_width_last_def dest: arg_cong [where f = length])

function TrimLeftSpace :: "string \<Rightarrow> string" where
  "TrimLeftSpace s =
     (if space_width s = 0 then s else TrimLeftSpace (drop (space_width s) s))"
  by pat_completeness auto
termination
proof (relation "measure length")
  show "wf (measure length)" by simp
next
  fix s :: string
  assume "space_width s \<noteq> 0"
  moreover have "space_width s \<le> length s" by (rule space_width_le)
  ultimately show "(drop (space_width s) s, s) \<in> measure length" by simp
qed

function TrimRightSpace :: "string \<Rightarrow> string" where
  "TrimRightSpace s =
     (if space_width_last s = 0 then s
      else TrimRightSpace (take (length s - space_width_last s) s))"
  by pat_completeness auto
termination
proof (relation "measure length")
  show "wf (measure length)" by simp
next
  fix s :: string
  assume "space_width_last s \<noteq> 0"
  moreover have "space_width_last s \<le> length s" by (rule space_width_last_le)
  ultimately show "(take (length s - space_width_last s) s, s) \<in> measure length" by simp
qed

declare TrimLeftSpace.simps [simp del] TrimRightSpace.simps [simp del]

definition TrimSpace :: "string \<Rightarrow> string" where
  "TrimSpace s = TrimRightSpace (TrimLeftSpace s)"

subsection \<open>Numbers\<close>

text \<open>
  \<open>strconv.Atoi\<close> on a 64-bit platform.  Every caller in the program discards the error
  (\<open>n, _ := strconv.Atoi(s)\<close>), so only the value is modelled: 0 on a syntax error, the
  nearest bound of \<open>int\<close> on a range error.  A string of 1 to 18 bytes takes the fast path
  of \<open>Atoi\<close>; any other string goes through \<open>ParseInt\<close> and \<open>ParseUint\<close>, where
  \<open>ParseUint\<close> returns a range error as soon as the digits read so far overflow 64 bits,
  before it looks at the bytes that follow.
\<close>

definition isDigit :: "char \<Rightarrow> bool" where
  "isDigit c = (CHR ''0'' \<le> c \<and> c \<le> CHR ''9'')"

definition digitsValue :: "string \<Rightarrow> int" where
  "digitsValue ds = foldl (\<lambda>n c. n * 10 + (of_char c - 48)) 0 ds"

datatype uintResult = SyntaxError | RangeError | Value int

text \<open>
  The loop of \<open>ParseUint\<close> in base 10, with the value \<open>n\<close> read so far: the cutoff
  \<open>maxUint64/10 + 1\<close> is 1844674407370955162 and \<open>maxUint64\<close> is 18446744073709551615.
\<close>

fun parseUintFrom :: "int \<Rightarrow> string \<Rightarrow> uintResult" where
  "parseUintFrom n [] = Value n"
| "parseUintFrom n (c # cs) =
     (if \<not> isDigit c then SyntaxError
      else if n \<ge> 1844674407370955162 then RangeError
      else let n1 = n * 10 + (of_char c - 48)
           in if n1 > 18446744073709551615 then RangeError else parseUintFrom n1 cs)"

definition ParseUint :: "string \<Rightarrow> uintResult" where
  "ParseUint s = (if s = [] then SyntaxError else parseUintFrom 0 s)"

definition ParseInt :: "string \<Rightarrow> int" where
  "ParseInt s0 =
     (if s0 = [] then 0
      else let neg = (hd s0 = CHR ''-'');
               s = (if hd s0 = CHR ''+'' \<or> hd s0 = CHR ''-'' then tl s0 else s0)
           in case ParseUint s of
                SyntaxError \<Rightarrow> 0
              | r \<Rightarrow>
                 (let un = (case r of Value n \<Rightarrow> n | _ \<Rightarrow> 18446744073709551615)
                  in if \<not> neg \<and> un \<ge> 9223372036854775808 then 9223372036854775807
                     else if neg \<and> un > 9223372036854775808 then - 9223372036854775808
                     else if neg then - un else un))"

definition Atoi :: "string \<Rightarrow> int" where
  "Atoi s0 =
     (if 0 < length s0 \<and> length s0 < 19
      then (let s = (if hd s0 = CHR ''-'' \<or> hd s0 = CHR ''+'' then tl s0 else s0)
            in if s = [] then 0
               else if \<not> list_all isDigit s then 0
               else if hd s0 = CHR ''-'' then - digitsValue s else digitsValue s)
      else ParseInt s0)"

section \<open>Version algebra (internal/resolver/resolver.go)\<close>

text \<open>The loop of \<open>normalizeVersion\<close> that cuts the fractional part into groups of 3 bytes.\<close>

function fracGroups :: "string \<Rightarrow> int list" where
  "fracGroups fr =
     (if length fr > 0
      then (if length fr > 3 then Atoi (take 3 fr) # fracGroups (drop 3 fr)
            else [Atoi fr])
      else [])"
  by pat_completeness auto
termination
  by (relation "measure length") auto

declare fracGroups.simps [simp del]

definition normalizeVersion :: "string \<Rightarrow> int list" where
  "normalizeVersion v0 =
     (let v = TrimPrefix v0 ''v'' in
      if v = [] then [0]
      else let parts = Split v (CHR ''.'') in
        if length parts = 1 then [Atoi (parts ! 0)]
        else if length parts = 2 \<and> length (parts ! 1) > 3
          then Atoi (parts ! 0) # fracGroups (parts ! 1)
        else map Atoi parts)"

text \<open>The loop of \<open>compareVersions\<close>, from index \<open>i\<close> up to \<open>maxLen\<close>.\<close>

function compareFrom :: "nat \<Rightarrow> nat \<Rightarrow> int list \<Rightarrow> int list \<Rightarrow> int" where
  "compareFrom i maxLen aParts bParts =
     (if i < maxLen
      then (let aVal = (if i < length aParts then aParts ! i else 0);
                bVal = (if i < length bParts then bParts ! i else 0)
            in if aVal < bVal then - 1
               else if aVal > bVal then 1
               else compareFrom (i + 1) maxLen aParts bParts)
      else 0)"
  by pat_completeness auto
termination
  by (relation "measure (\<lambda>(i, maxLen, a, b). maxLen - i)") auto

declare compareFrom.simps [simp del]

definition compareVersions :: "string \<Rightarrow> string \<Rightarrow> int" where
  "compareVersions a b =
     (let aParts = normalizeVersion a;
          bParts = normalizeVersion b;
          maxLen = (if length bParts > length aParts then length bParts else length aParts)
      in compareFrom 0 maxLen aParts bParts)"

definition satisfiesOne :: "string \<Rightarrow> string \<Rightarrow> bool" where
  "satisfiesOne have want0 =
     (let want = TrimSpace want0 in
      if want = '''' \<or> want = ''0'' then True
      else if HasPrefix want ''>='' then compareVersions have (TrimSpace (drop 2 want)) \<ge> 0
      else if HasPrefix want ''<='' then compareVersions have (TrimSpace (drop 2 want)) \<le> 0
      else if HasPrefix want ''!='' then compareVersions have (TrimSpace (drop 2 want)) \<noteq> 0
      else if HasPrefix want ''>'' then compareVersions have (TrimSpace (drop 1 want)) > 0
      else if HasPrefix want ''<'' then compareVersions have (TrimSpace (drop 1 want)) < 0
      else if HasPrefix want ''=='' then compareVersions have (TrimSpace (drop 2 want)) = 0
      else compareVersions have want \<ge> 0)"

definition satisfies :: "string \<Rightarrow> string \<Rightarrow> bool" where
  "satisfies have0 want =
     (if want = '''' \<or> want = ''0'' then True
      else if have0 = ''undef'' then True
      else let have = (if have0 = '''' then ''0'' else have0)
           in list_all (\<lambda>c. satisfiesOne have (TrimSpace c)) (Split want (CHR '','')))"

section \<open>Paths (path/filepath, Unix)\<close>

text \<open>
  \<open>filepath.Base\<close>: the last element of the path.  Trailing slashes are removed first;
  the empty path gives \<open>"."\<close> and a path of slashes only gives \<open>"/"\<close>.
\<close>

definition Base :: "string \<Rightarrow> string" where
  "Base path =
     (if path = [] then ''.''
      else let p = rev (dropWhile (\<lambda>c. c = CHR ''/'') (rev path));
               e = rev (takeWhile (\<lambda>c. c \<noteq> CHR ''/'') (rev p))
           in if e = [] then ''/'' else e)"

section \<open>Distribution records (internal/dist/dist.go)\<close>

text \<open>
  A Go \<open>map[string]T\<close> is a finite map \<^typ>\<open>(string, 'a) fmap\<close>.  Reading a missing key of
  a \<open>map[string]string\<close> gives the empty string: \<open>mapIndex\<close>.
\<close>

definition mapIndex :: "(string, string) fmap \<Rightarrow> string \<Rightarrow> string" where
  "mapIndex m k = (case fmlookup m k of Some v \<Rightarrow> v | None \<Rightarrow> [])"

record Dist =
  Name :: string
  Pathname :: string
  Provides :: "(string, string) fmap"
  Requirements :: "(string, string) fmap"
  Source :: string

text \<open>\<open>dist.VersionReq\<close>: a module and a version constraint.\<close>

record VersionReq =
  reqModule :: string
  reqVersion :: string

text \<open>\<open>dist.CPANIndex\<close>: an entry of \<open>02packages.details.txt\<close>.\<close>

record IndexEntry =
  entryModule :: string
  entryVersion :: string
  entryPathname :: string

section \<open>Snapshot emitter (package snapshot)\<close>

text \<open>
  \<open>normalizeVersion\<close> of package \<open>snapshot\<close> (the resolver has a function of the same name,
  modelled above as \<^const>\<open>normalizeVersion\<close>).
\<close>

definition snapshot_normalizeVersion :: "string \<Rightarrow> string" where
  "snapshot_normalizeVersion v0 =
     (let v1 = TrimSpace v0 in
      if v1 = [] then ''0''
      else let v2 = (case Index v1 '','' of Some idx \<Rightarrow> TrimSpace (take idx v1) | None \<Rightarrow> v1);
               v3 = TrimPrefix v2 ''>='';
               v4 = TrimPrefix v3 ''>'';
               v5 = TrimPrefix v4 ''=='';
               v6 = TrimPrefix v5 ''='';
               v7 = TrimSpace v6
           in if v7 = [] then ''0'' else v7)"

text \<open>\<open>sortedKeys\<close>: the keys of a map, sorted as strings (\<open>sort.Strings\<close>).\<close>

definition sortedKeys :: "(string, string) fmap \<Rightarrow> string list" where
  "sortedKeys m = sorted_list_of_fset (fmdom m)"

text \<open>
  The emitter writes to an \<open>io.Writer\<close>; the model is the text written to a writer that
  never fails (a buffer), so the error results of \<open>Emit\<close> and \<open>emitDist\<close> do not arise.
\<close>

definition emitProvidesLine :: "Dist \<Rightarrow> string \<Rightarrow> string" where
  "emitProvidesLine d modname =
     (let ver = mapIndex (Provides d) modname;
          ver' = (if ver = [] then ''undef'' else ver)
      in ''      '' @ modname @ '' '' @ ver' @ [CHR 0x0A])"

definition emitRequirementsLine :: "Dist \<Rightarrow> string \<Rightarrow> string" where
  "emitRequirementsLine d modname =
     (let ver = snapshot_normalizeVersion (mapIndex (Requirements d) modname)
      in ''      '' @ modname @ '' '' @ ver @ [CHR 0x0A])"

definition emitDist :: "Dist \<Rightarrow> string" where
  "emitDist d =
     ''  '' @ Name d @ [CHR 0x0A]
     @ ''    pathname: '' @ Pathname d @ [CHR 0x0A]
     @ (if fcard (fmdom (Provides d)) > 0
        then ''    provides:'' @ [CHR 0x0A]
             @ concat (map (emitProvidesLine d) (sortedKeys (Provides d)))
        else [])
     @ (if fcard (fmdom (Requirements d)) > 0
        then ''    requirements:'' @ [CHR 0x0A]
             @ concat (map (emitRequirementsLine d) (sortedKeys (Requirements d)))
        else [])"

definition header :: string where
  "header = ''# carton snapshot format: version 1.0'' @ [CHR 0x0A]"

text \<open>
  \<open>Emit\<close> sorts a copy of the records by name with \<open>sort.Slice\<close>, which is not stable: the
  model sorts with an insertion sort, and records of equal name may come out of the Go
  sort in another order.
\<close>

definition Emit :: "Dist list \<Rightarrow> string" where
  "Emit dists =
     header @ ''DISTRIBUTIONS'' @ [CHR 0x0A] @ concat (map emitDist (sort_key Name dists))"

section \<open>Snapshot parser (package snapshot)\<close>

text \<open>
  \<open>bufio.Scanner\<close> with the default split function \<open>ScanLines\<close>: the input is cut at every
  newline, one trailing carriage return is dropped from each line, and no empty last line
  is produced after a final newline.  A line of 65536 bytes or more does not fit the
  scanner's buffer: scanning stops with \<open>ErrTooLong\<close>.
\<close>

definition dropCR :: "string \<Rightarrow> string" where
  "dropCR l = (if l \<noteq> [] \<and> last l = CHR 0x0D then butlast l else l)"

definition rawLines :: "string \<Rightarrow> string list" where
  "rawLines input =
     (let parts = Split input (CHR 0x0A)
      in if last parts = [] then butlast parts else parts)"

definition tooLong :: "string \<Rightarrow> bool" where
  "tooLong l = (65536 \<le> int (length l))"

text \<open>
  The regular expressions of the parser, as functions from a line to the captured groups.
  In Go's syntax \<open>\S\<close> is any character other than tab, newline, form feed, carriage
  return and space, \<open>.\<close> is any character other than newline, and \<open>$\<close> is the end of the
  text.
\<close>

definition reSpace :: "char \<Rightarrow> bool" where
  "reSpace c = (c = CHR 0x09 \<or> c = CHR 0x0A \<or> c = CHR 0x0C \<or> c = CHR 0x0D \<or> c = CHR 0x20)"

definition reAnyPlus :: "string \<Rightarrow> bool" where
  "reAnyPlus s = (s \<noteq> [] \<and> CHR 0x0A \<notin> set s)"

text \<open>\<open>distNameRe = ^  (\S+)$\<close>\<close>

definition distNameRe :: "string \<Rightarrow> string option" where
  "distNameRe line =
     (if HasPrefix line ''  '' \<and> drop 2 line \<noteq> [] \<and> list_all (\<lambda>c. \<not> reSpace c) (drop 2 line)
      then Some (drop 2 line) else None)"

text \<open>\<open>pathnameRe = ^    pathname: (.+)$\<close>\<close>

definition pathnameRe :: "string \<Rightarrow> string option" where
  "pathnameRe line =
     (if HasPrefix line ''    pathname: '' \<and> reAnyPlus (drop 14 line)
      then Some (drop 14 line) else None)"

text \<open>\<open>providesRe = ^    provides:$\<close> and \<open>requiresRe = ^    requirements:$\<close>\<close>

definition providesRe :: "string \<Rightarrow> bool" where
  "providesRe line = (line = ''    provides:'')"

definition requiresRe :: "string \<Rightarrow> bool" where
  "requiresRe line = (line = ''    requirements:'')"

text \<open>
  \<open>moduleVerRe = ^      (\S+) (.+)$\<close>: the first group is the longest run of non-space
  characters after the six spaces, and a space must follow it.
\<close>

definition moduleVerRe :: "string \<Rightarrow> (string \<times> string) option" where
  "moduleVerRe line =
     (if HasPrefix line ''      ''
      then (let rest = drop 6 line;
                modname = takeWhile (\<lambda>c. \<not> reSpace c) rest;
                after = dropWhile (\<lambda>c. \<not> reSpace c) rest
            in if modname \<noteq> [] \<and> HasPrefix after '' '' \<and> reAnyPlus (drop 1 after)
               then Some (modname, drop 1 after) else None)
      else None)"

text \<open>The variables of \<open>Parse\<close>: the records finished so far, the current one, the section.\<close>

record parseState =
  dists :: "Dist list"
  current :: "Dist option"
  inProvides :: bool
  inRequirements :: bool

definition newDist :: "string \<Rightarrow> Dist" where
  "newDist n = \<lparr>Name = n, Pathname = [], Provides = fmempty, Requirements = fmempty, Source = []\<rparr>"

text \<open>The body of the scanning loop of \<open>Parse\<close>, for one line.\<close>

definition parseLine :: "parseState \<Rightarrow> string \<Rightarrow> parseState" where
  "parseLine st line =
     (if HasPrefix line ''#'' \<or> line = ''DISTRIBUTIONS'' then st
      else if line = [] then st
      else case distNameRe line of
        Some n \<Rightarrow>
          \<lparr>dists = (case current st of Some d \<Rightarrow> dists st @ [d] | None \<Rightarrow> dists st),
           current = Some (newDist n), inProvides = False, inRequirements = False\<rparr>
      | None \<Rightarrow>
         (case current st of
            None \<Rightarrow> st
          | Some d \<Rightarrow>
             (case pathnameRe line of
                Some p \<Rightarrow> st\<lparr>current := Some (d\<lparr>Pathname := p\<rparr>)\<rparr>
              | None \<Rightarrow>
                 if providesRe line then st\<lparr>inProvides := True, inRequirements := False\<rparr>
                 else if requiresRe line then st\<lparr>inRequirements := True, inProvides := False\<rparr>
                 else (case moduleVerRe line of
                         Some (modname, version) \<Rightarrow>
                           if inProvides st
                           then st\<lparr>current := Some (d\<lparr>Provides := fmupd modname version (Provides d)\<rparr>)\<rparr>
                           else if inRequirements st
                           then st\<lparr>current :=
                                     Some (d\<lparr>Requirements := fmupd modname version (Requirements d)\<rparr>)\<rparr>
                           else st
                       | None \<Rightarrow> st))))"

datatype parseError = ErrTooLong

text \<open>
  \<open>Parse\<close>: the lines before the first one that is too long are processed, the current
  record is appended, and a scanner error then replaces the result.
\<close>

definition Parse :: "string \<Rightarrow> parseError + Dist list" where
  "Parse input =
     (let ls = rawLines input;
          st = foldl parseLine
                 \<lparr>dists = [], current = None, inProvides = False, inRequirements = False\<rparr>
                 (map dropCR (takeWhile (\<lambda>l. \<not> tooLong l) ls));
          ds = (case current st of Some d \<Rightarrow> dists st @ [d] | None \<Rightarrow> dists st)
      in if list_ex tooLong ls then Inl ErrTooLong else Inr ds)"

section \<open>Downloader (package downloader)\<close>

text \<open>\<open>downloader.Job\<close>.\<close>

record Job =
  URL :: string
  DestPath :: string
  jobSource :: string

text \<open>
  \<open>downloadOne\<close> calls the operating system and the HTTP client.  These calls are the
  fields of a record \<open>sys\<close>; each of them takes the state of the world (the file system
  and the network, of type \<open>'w\<close>) and returns its result with the new state.  A call that
  only reads (\<open>os.Stat\<close>) returns no state.  \<open>'e\<close> is the type of the errors of the
  library, \<open>'r\<close> the type of an open response body and \<open>'f\<close> the type of an open file.
\<close>

record ('w, 'e, 'r, 'f) sys =
  osStat :: "string \<Rightarrow> 'w \<Rightarrow> bool"
  osMkdirAll :: "string \<Rightarrow> 'w \<Rightarrow> 'e option \<times> 'w"
  filepathDir :: "string \<Rightarrow> string"
  httpGet :: "string \<Rightarrow> 'w \<Rightarrow> ('e + nat \<times> 'r) \<times> 'w"
  bodyClose :: "'r \<Rightarrow> 'w \<Rightarrow> 'w"
  osCreate :: "string \<Rightarrow> 'w \<Rightarrow> ('e + 'f) \<times> 'w"
  ioCopy :: "'f \<Rightarrow> 'r \<Rightarrow> 'w \<Rightarrow> 'e option \<times> 'w"
  fileClose :: "'f \<Rightarrow> 'w \<Rightarrow> 'w"
  osRemove :: "string \<Rightarrow> 'w \<Rightarrow> 'w"
  osRename :: "string \<Rightarrow> string \<Rightarrow> 'w \<Rightarrow> 'e option \<times> 'w"

text \<open>The errors \<open>downloadOne\<close> returns, each wrapping the error of the library.\<close>

datatype 'e downloadError =
  CreatingDirectory 'e
  | Downloading string 'e
  | DownloadingHTTP string nat
  | CreatingFile 'e
  | WritingFile 'e
  | RenamingFile 'e

text \<open>
  \<open>downloadOne\<close>: the result is the returned error (\<open>None\<close> is Go's \<open>nil\<close>) and the state
  of the world after the call.  \<open>os.Stat\<close> returning no error is \<open>osStat\<close> being true.  The
  deferred \<open>resp.Body.Close()\<close> runs last on every path that follows a successful \<open>Get\<close>.
\<close>

definition downloadOne ::
  "('w, 'e, 'r, 'f) sys \<Rightarrow> Job \<Rightarrow> 'w \<Rightarrow> 'e downloadError option \<times> 'w" where
  "downloadOne s job w0 =
     (if osStat s (DestPath job) w0 then (None, w0)
      else case osMkdirAll s (filepathDir s (DestPath job)) w0 of
        (Some err, w1) \<Rightarrow> (Some (CreatingDirectory err), w1)
      | (None, w1) \<Rightarrow>
         (case httpGet s (URL job) w1 of
            (Inl err, w2) \<Rightarrow> (Some (Downloading (URL job) err), w2)
          | (Inr (status, body), w2) \<Rightarrow>
              if status \<noteq> 200
              then (Some (DownloadingHTTP (URL job) status), bodyClose s body w2)
              else let tmpPath = DestPath job @ ''.tmp'' in
                (case osCreate s tmpPath w2 of
                   (Inl err, w3) \<Rightarrow> (Some (CreatingFile err), bodyClose s body w3)
                 | (Inr out, w3) \<Rightarrow>
                    (case ioCopy s out body w3 of
                       (cerr, w4) \<Rightarrow>
                         let w5 = fileClose s out w4 in
                         (case cerr of
                            Some err \<Rightarrow>
                              (Some (WritingFile err), bodyClose s body (osRemove s tmpPath w5))
                          | None \<Rightarrow>
                             (case osRename s tmpPath (DestPath job) w5 of
                                (Some err, w6) \<Rightarrow>
                                  (Some (RenamingFile err),
                                   bodyClose s body (osRemove s tmpPath w6))
                              | (None, w6) \<Rightarrow> (None, bodyClose s body w6)))))))"

subsection \<open>A file system and a server in memory\<close>

text \<open>
  A small world to run \<open>downloadOne\<close> in, as the tests of the downloader do with a
  temporary directory and a test server: the files with their contents, and the URLs
  requested so far.  The server answers from a table.  Directories are not represented.
\<close>

record world =
  files :: "(string, string) fmap"
  requested :: "string list"

definition memSys ::
  "(string \<Rightarrow> (nat \<times> string) option) \<Rightarrow> (world, string, string, string) sys" where
  "memSys server =
     \<lparr>osStat = (\<lambda>p w. p |\<in>| fmdom (files w)),
      osMkdirAll = (\<lambda>p w. (None, w)),
      filepathDir = (\<lambda>p. rev (drop 1 (dropWhile (\<lambda>c. c \<noteq> CHR ''/'') (rev p)))),
      httpGet = (\<lambda>url w.
         (case server url of
            None \<Rightarrow> Inl ''connection refused''
          | Some (status, body) \<Rightarrow> Inr (status, body),
          w\<lparr>requested := requested w @ [url]\<rparr>)),
      bodyClose = (\<lambda>r w. w),
      osCreate = (\<lambda>p w. (Inr p, w\<lparr>files := fmupd p [] (files w)\<rparr>)),
      ioCopy = (\<lambda>f r w. (None, w\<lparr>files := fmupd f r (files w)\<rparr>)),
      fileClose = (\<lambda>f w. w),
      osRemove = (\<lambda>p w. w\<lparr>files := fmdrop p (files w)\<rparr>),
      osRename = (\<lambda>a b w.
         (case fmlookup (files w) a of
            None \<Rightarrow> (Some ''no such file'', w)
          | Some c \<Rightarrow> (None, w\<lparr>files := fmupd b c (fmdrop a (files w))\<rparr>)))\<rparr>"

section \<open>Extractor (package extractor): metadata\<close>

text \<open>
  A value decoded from JSON or YAML into \<open>interface{}\<close>, as \<open>versionString\<close> sees it: a
  string, a \<open>float64\<close>, an \<open>int\<close>, or a value of any other dynamic type.  The type \<open>'f\<close>
  stands for \<open>float64\<close>; its formatting with \<open>%g\<close> is a parameter \<open>fmtG\<close> of the functions
  that need it.
\<close>

datatype 'f jvalue = VString string | VFloat64 'f | VInt int | VOther

text \<open>
  The value stored under a dependency type of \<open>prereqs\<close>: the type assertion
  \<open>deps.(map[string]interface{})\<close> succeeds on \<open>DMap\<close> only.
\<close>

datatype 'f jdeps = DMap "(string, 'f jvalue) fmap" | DOther

record ProvidesEntry =
  entryFile :: string
  providesVersion :: string

text \<open>
  \<open>MetaFile\<close>.  The fields are those of the Go struct, with the prefix \<open>meta\<close> (the record
  \<open>Dist\<close> has fields of the same names); \<open>metaShare\<close> and \<open>metaSystem\<close> are
  \<open>XAlienfile.Requires.Share\<close> and \<open>XAlienfile.Requires.System\<close>.
\<close>

record 'f MetaFile =
  metaName :: string
  metaVersion :: string
  metaProvides :: "(string, ProvidesEntry) fmap"
  metaPrereqs :: "(string, (string, 'f jdeps) fmap) fmap"
  metaRequirements :: "(string, string) fmap"
  metaShare :: "(string, 'f jvalue) fmap"
  metaSystem :: "(string, 'f jvalue) fmap"
  metaRequires :: "(string, 'f jvalue) fmap"
  metaBuildRequires :: "(string, 'f jvalue) fmap"
  metaConfigureRequires :: "(string, 'f jvalue) fmap"

text \<open>\<open>fmt.Sprintf("%d", n)\<close>: the decimal digits, after a minus sign when \<open>n\<close> is negative.\<close>

function formatNat :: "nat \<Rightarrow> string" where
  "formatNat n =
     (if n < 10 then [''0123456789'' ! n]
      else formatNat (n div 10) @ [''0123456789'' ! (n mod 10)])"
  by pat_completeness auto
termination
  by (relation "measure id") auto

declare formatNat.simps [simp del]

definition formatInt :: "int \<Rightarrow> string" where
  "formatInt i = (if i < 0 then CHR ''-'' # formatNat (nat (- i)) else formatNat (nat i))"

fun versionString :: "('f \<Rightarrow> string) \<Rightarrow> 'f jvalue \<Rightarrow> string" where
  "versionString fmtG (VString val) = val"
| "versionString fmtG (VFloat64 val) = fmtG val"
| "versionString fmtG (VInt val) = formatInt val"
| "versionString fmtG VOther = ''0''"

text \<open>
  The body of every loop of \<open>flattenPrereqs\<close>:
  \<open>if meta.Requirements[mod] == "" { meta.Requirements[mod] = versionString(ver) }\<close>.
\<close>

definition setIfEmpty ::
  "string \<Rightarrow> string \<Rightarrow> (string, string) fmap \<Rightarrow> (string, string) fmap" where
  "setIfEmpty modname v reqs = (if mapIndex reqs modname = [] then fmupd modname v reqs else reqs)"

text \<open>
  \<open>for mod, ver := range m { ... }\<close>.  Go visits the keys of a map in an order it does not
  specify; the order is the parameter \<open>ord\<close>, which lists the keys of a key set.
\<close>

definition rangeInto ::
  "(string fset \<Rightarrow> string list) \<Rightarrow> ('f \<Rightarrow> string) \<Rightarrow> (string, 'f jvalue) fmap
     \<Rightarrow> (string, string) fmap \<Rightarrow> (string, string) fmap" where
  "rangeInto ord fmtG m reqs =
     foldl (\<lambda>r modname.
              case fmlookup m modname of
                Some ver \<Rightarrow> setIfEmpty modname (versionString fmtG ver) r
              | None \<Rightarrow> r)
       reqs (ord (fmdom m))"

definition phases :: "string list" where
  "phases = [''runtime'', ''configure'', ''build'']"

definition depTypes :: "string list" where
  "depTypes = [''requires'', ''recommends'', ''suggests'']"

text \<open>The loop over the dependency types of one phase, and the loop over the phases.\<close>

definition flattenPhase ::
  "(string fset \<Rightarrow> string list) \<Rightarrow> ('f \<Rightarrow> string) \<Rightarrow> (string, 'f jdeps) fmap
     \<Rightarrow> (string, string) fmap \<Rightarrow> (string, string) fmap" where
  "flattenPhase ord fmtG phaseReqs reqs =
     foldl (\<lambda>r depType.
              case fmlookup phaseReqs depType of
                Some (DMap reqMap) \<Rightarrow> rangeInto ord fmtG reqMap r
              | _ \<Rightarrow> r)
       reqs depTypes"

definition flattenModern ::
  "(string fset \<Rightarrow> string list) \<Rightarrow> ('f \<Rightarrow> string) \<Rightarrow> 'f MetaFile
     \<Rightarrow> (string, string) fmap \<Rightarrow> (string, string) fmap" where
  "flattenModern ord fmtG meta reqs =
     foldl (\<lambda>r phase.
              case fmlookup (metaPrereqs meta) phase of
                Some phaseReqs \<Rightarrow> flattenPhase ord fmtG phaseReqs r
              | None \<Rightarrow> r)
       reqs phases"

definition flattenPrereqs ::
  "(string fset \<Rightarrow> string list) \<Rightarrow> ('f \<Rightarrow> string) \<Rightarrow> 'f MetaFile \<Rightarrow> 'f MetaFile" where
  "flattenPrereqs ord fmtG meta =
     (let r0 = flattenModern ord fmtG meta fmempty;
          r1 = rangeInto ord fmtG (metaRequires meta) r0;
          r2 = rangeInto ord fmtG (metaBuildRequires meta) r1;
          r3 = rangeInto ord fmtG (metaConfigureRequires meta) r2;
          r4 = rangeInto ord fmtG (metaShare meta) r3;
          r5 = rangeInto ord fmtG (metaSystem meta) r4
      in meta\<lparr>metaRequirements := r5\<rparr>)"

section \<open>Extractor (package extractor): tarballs and configure\<close>





















section \<open>Resolver (internal/resolver/resolver.go)\<close>

text \<open>\<open>coreModules\<close>: the keys of the map (every value is \<open>true\<close>).\<close>

definition coreModules :: "string list" where
  "coreModules =
    [''perl'', ''strict'', ''warnings'', ''utf8'', ''base'', ''parent'', ''constant'',
     ''overload'', ''lib'', ''vars'', ''integer'', ''bytes'', ''feature'', ''if'', ''mro'',
     ''re'', ''locale'', ''open'', ''subs'', ''fields'', ''bignum'', ''bigint'',
     ''bigrat'', ''AnyDBM_File'', ''AutoLoader'', ''AutoSplit'', ''B'', ''B::Deparse'',
     ''Benchmark'', ''Carp'', ''Carp::Heavy'', ''Class::Struct'', ''Config'',
     ''Config::Extensions'', ''Cwd'', ''DB'', ''DBM_Filter'', ''Data::Dumper'',
     ''Devel::Peek'', ''Devel::SelfStubber'', ''Digest'', ''Digest::MD5'', ''DirHandle'',
     ''Dumpvalue'', ''DynaLoader'', ''Encode'', ''Encode::Alias'', ''Encode::Config'',
     ''Encode::Encoding'', ''Encode::Guess'', ''Encode::MIME::Header'', ''English'',
     ''Env'', ''Errno'', ''Exporter'', ''Exporter::Heavy'', ''ExtUtils::Constant'',
     ''ExtUtils::Embed'', ''ExtUtils::Install'', ''ExtUtils::Installed'',
     ''ExtUtils::Liblist'', ''ExtUtils::MM'', ''ExtUtils::MM_Any'', ''ExtUtils::MM_Unix'',
     ''ExtUtils::MY'', ''ExtUtils::Manifest'', ''ExtUtils::Miniperl'',
     ''ExtUtils::Mkbootstrap'', ''ExtUtils::Mksymlists'', ''ExtUtils::Packlist'',
     ''ExtUtils::testlib'', ''Fcntl'', ''File::Basename'', ''File::Compare'',
     ''File::Copy'', ''File::DosGlob'', ''File::Find'', ''File::Glob'', ''File::Path'',
     ''File::Spec'', ''File::Spec::Functions'', ''File::Spec::Unix'', ''File::Stat'',
     ''File::stat'', ''File::Temp'', ''FileCache'', ''FileHandle'', ''Filter::Simple'',
     ''Filter::Util::Call'', ''FindBin'', ''GDBM_File'', ''Getopt::Long'', ''Getopt::Std'',
     ''Hash::Util'', ''Hash::Util::FieldHash'', ''I18N::Collate'', ''I18N::LangTags'',
     ''I18N::Langinfo'', ''IO'', ''IO::Dir'', ''IO::File'', ''IO::Handle'', ''IO::Pipe'',
     ''IO::Poll'', ''IO::Seekable'', ''IO::Select'', ''IO::Socket'', ''IO::Socket::INET'',
     ''IO::Socket::UNIX'', ''IPC::Cmd'', ''IPC::Msg'', ''IPC::Open2'', ''IPC::Open3'',
     ''IPC::Semaphore'', ''IPC::SharedMem'', ''IPC::SysV'', ''List::Util'',
     ''List::Util::XS'', ''Locale::Maketext'', ''MIME::Base64'', ''MIME::QuotedPrint'',
     ''Math::BigFloat'', ''Math::BigInt'', ''Math::BigRat'', ''Math::Complex'',
     ''Math::Trig'', ''Memoize'', ''NDBM_File'', ''Net::Cmd'', ''Net::Config'',
     ''Net::Domain'', ''Net::FTP'', ''Net::NNTP'', ''Net::Netrc'', ''Net::POP3'',
     ''Net::Ping'', ''Net::SMTP'', ''Net::Time'', ''Net::hostent'', ''Net::netent'',
     ''Net::protoent'', ''Net::servent'', ''O'', ''Opcode'', ''ODBM_File'',
     ''OS2::Process'', ''PerlIO'', ''PerlIO::encoding'', ''PerlIO::scalar'',
     ''PerlIO::via'', ''PerlIO::via::QuotedPrint'', ''Pod::Checker'', ''Pod::Find'',
     ''Pod::Functions'', ''Pod::Html'', ''Pod::InputObjects'', ''Pod::Man'',
     ''Pod::ParseLink'', ''Pod::ParseUtils'', ''Pod::Parser'', ''Pod::Perldoc'',
     ''Pod::PlainText'', ''Pod::Select'', ''Pod::Simple'', ''Pod::Text'', ''Pod::Usage'',
     ''POSIX'', ''SDBM_File'', ''Safe'', ''Scalar::Util'', ''Search::Dict'',
     ''SelectSaver'', ''SelfLoader'', ''Socket'', ''Storable'', ''Sub::Util'', ''Symbol'',
     ''Sys::Hostname'', ''Sys::Syslog'', ''Term::ANSIColor'', ''Term::Cap'',
     ''Term::Complete'', ''Term::ReadLine'', ''Test'', ''Test::Builder'',
     ''Test::Builder::Module'', ''Test::Builder::Tester'', ''Test::Harness'',
     ''Test::More'', ''Test::Simple'', ''Text::Abbrev'', ''Text::Balanced'',
     ''Text::ParseWords'', ''Text::Tabs'', ''Text::Wrap'', ''Thread'', ''Thread::Queue'',
     ''Thread::Semaphore'', ''Tie::Array'', ''Tie::File'', ''Tie::Handle'', ''Tie::Hash'',
     ''Tie::Memoize'', ''Tie::RefHash'', ''Tie::Scalar'', ''Tie::StdHandle'',
     ''Tie::SubstrHash'', ''Time::HiRes'', ''Time::Local'', ''Time::Piece'',
     ''Time::Seconds'', ''Time::gmtime'', ''Time::localtime'', ''Time::tm'', ''UNIVERSAL'',
     ''Unicode::Collate'', ''Unicode::Normalize'', ''Unicode::UCD'', ''User::grent'',
     ''User::pwent'', ''XSLoader'', ''version'', ''threads'', ''threads::shared'',
     ''encoding'', ''encoding::warnings'']"

definition isCore :: "string \<Rightarrow> bool" where
  "isCore modname = (modname \<in> set coreModules)"

definition extractPathname :: "string \<Rightarrow> string" where
  "extractPathname url =
     (case Index url ''/authors/id/'' of
        Some idx \<Rightarrow> drop (idx + length ''/authors/id/'') url
      | None \<Rightarrow> last (Split url (CHR ''/'')))"

definition distNameFromPath :: "string \<Rightarrow> string" where
  "distNameFromPath pathname = TrimSuffix (TrimSuffix (Base pathname) ''.tar.gz'') ''.tgz''"

text \<open>\<open>index.BackPANResult\<close>.\<close>

record BackPANResult =
  DownloadURL :: string
  resultVersion :: string
  resultStatus :: string

text \<open>
  The resolver calls the two indexes, the downloader and the extractor, which reach the
  network, the file system and \<open>perl\<close>.  These calls are the fields of a record
  \<open>services\<close>; a call with effects takes the state of the world (of type \<open>'w\<close>) and
  returns its result with the new state.  \<open>cpanModules\<close> is the table of the primary
  index, loaded before the resolver starts, \<open>filepathJoin\<close> is \<open>filepath.Join\<close>, and
  \<open>rangeOrder\<close> is the order in which Go visits the keys of a map in a \<open>range\<close> loop,
  which may differ from one loop to the next.  \<open>'e\<close> is the type of the errors these
  calls return.  The results of \<open>Download\<close> are pairs of a job and its error.
\<close>

record ('w, 'e, 'f) services =
  cpanModules :: "(string, IndexEntry) fmap"
  cpanMirror :: string
  backpanLookup :: "string \<Rightarrow> string \<Rightarrow> 'w \<Rightarrow> ('e + BackPANResult) \<times> 'w"
  backpanDir :: string
  cacheDir :: string
  filepathJoin :: "string \<Rightarrow> string \<Rightarrow> string"
  Download :: "Job list \<Rightarrow> 'w \<Rightarrow> (Job \<times> 'e option) list \<times> 'w"
  ExtractWithConfigure :: "string \<Rightarrow> 'w \<Rightarrow> ('e + 'f MetaFile) \<times> 'w"
  rangeOrder :: "'w \<Rightarrow> string fset \<Rightarrow> string list"

text \<open>\<open>Downloader.CachePath\<close> and \<open>BackPANIndex.LocalPath\<close>.\<close>

definition CachePath :: "('w, 'e, 'f) services \<Rightarrow> string \<Rightarrow> string" where
  "CachePath sv pathname = filepathJoin sv (cacheDir sv) pathname"

definition LocalPath :: "('w, 'e, 'f) services \<Rightarrow> string \<Rightarrow> string" where
  "LocalPath sv downloadURL = filepathJoin sv (backpanDir sv) (last (Split downloadURL (CHR ''/'')))"

text \<open>
  The state of a \<open>Resolver\<close>: the map \<open>resolved\<close>, the set of the keys of \<open>resolving\<close>
  (its values are all \<open>true\<close>), and the world.  A record of \<open>resolved\<close> is not modified
  once it is bound, so the pointers \<open>*dist.Dist\<close> are modelled as the records
  themselves.
\<close>

record 'w resolver =
  resolved :: "(string, Dist) fmap"
  resolving :: "string fset"
  world :: 'w

text \<open>
  The errors of \<open>resolveOne\<close>; \<open>IndexOutOfRange\<close> is the panic of \<open>results[0]\<close> when
  \<open>Download\<close> returns no result.
\<close>

datatype 'e resolveError =
  ErrResolving string 'e
  | ErrDownloading string 'e
  | IndexOutOfRange

text \<open>
  Source selection (\<open>resolveOne\<close>, "Try CPAN first"): the download URL, the pathname and
  the source.
\<close>

definition selectSource ::
  "('w, 'e, 'f) services \<Rightarrow> string \<Rightarrow> string \<Rightarrow> 'w
     \<Rightarrow> ('e resolveError + string \<times> string \<times> string) \<times> 'w" where
  "selectSource sv modname version w =
     (case fmlookup (cpanModules sv) modname of
        Some entry \<Rightarrow>
          if satisfies (entryVersion entry) version
          then (Inr (cpanMirror sv @ ''/authors/id/'' @ entryPathname entry,
                     entryPathname entry, ''cpan''), w)
          else (case backpanLookup sv modname version w of
                  (Inl err, w') \<Rightarrow> (Inl (ErrResolving modname err), w')
                | (Inr result, w') \<Rightarrow>
                    (Inr (DownloadURL result, extractPathname (DownloadURL result),
                          ''backpan''), w'))
      | None \<Rightarrow>
          (case backpanLookup sv modname version w of
             (Inl err, w') \<Rightarrow> (Inl (ErrResolving modname err), w')
           | (Inr result, w') \<Rightarrow>
               (Inr (DownloadURL result, extractPathname (DownloadURL result),
                     ''backpan''), w')))"

text \<open>The minimal metadata used when the extractor fails.\<close>

definition minimalMeta :: "string \<Rightarrow> string \<Rightarrow> string \<Rightarrow> 'f MetaFile" where
  "minimalMeta pathname modname version =
     \<lparr>metaName = distNameFromPath pathname, metaVersion = [],
      metaProvides = fmupd modname \<lparr>entryFile = [], providesVersion = version\<rparr> fmempty,
      metaPrereqs = fmempty, metaRequirements = fmempty,
      metaShare = fmempty, metaSystem = fmempty, metaRequires = fmempty,
      metaBuildRequires = fmempty, metaConfigureRequires = fmempty\<rparr>"

text \<open>
  "Create Dist", "Populate provides" and "Ensure the main module is in provides".  The
  loop over \<open>meta.Provides\<close> writes one key per iteration, so its result does not depend
  on the order of the iterations: it is the map of the versions.
\<close>

definition createDist :: "string \<Rightarrow> string \<Rightarrow> string \<Rightarrow> 'f MetaFile \<Rightarrow> Dist" where
  "createDist modname pathname source meta =
     (let provides = fmmap providesVersion (metaProvides meta);
          provides' = (if modname |\<in>| fmdom provides then provides
                       else fmupd modname (metaVersion meta) provides)
      in \<lparr>Name = distNameFromPath pathname, Pathname = pathname, Provides = provides',
          Requirements = metaRequirements meta, Source = source\<rparr>)"

text \<open>
  The part of \<open>resolveOne\<close> from the source selection to the creation of the record:
  select the source, download the tarball, extract the metadata, create the record.
\<close>

definition fetchDist ::
  "('w, 'e, 'f) services \<Rightarrow> string \<Rightarrow> string \<Rightarrow> 'w \<Rightarrow> ('e resolveError + Dist) \<times> 'w" where
  "fetchDist sv modname version w =
     (case selectSource sv modname version w of
        (Inl err, w1) \<Rightarrow> (Inl err, w1)
      | (Inr (downloadURL, pathname, source), w1) \<Rightarrow>
          (let destPath = (if source = ''cpan'' then CachePath sv pathname
                           else LocalPath sv downloadURL);
               jobs = [\<lparr>URL = downloadURL, DestPath = destPath, jobSource = source\<rparr>]
           in case Download sv jobs w1 of
                ([], w2) \<Rightarrow> (Inl IndexOutOfRange, w2)
              | ((job, Some err) # rest, w2) \<Rightarrow> (Inl (ErrDownloading modname err), w2)
              | ((job, None) # rest, w2) \<Rightarrow>
                  (case ExtractWithConfigure sv destPath w2 of
                     (Inl err, w3) \<Rightarrow>
                       (Inr (createDist modname pathname source
                               (minimalMeta pathname modname version :: 'f MetaFile)), w3)
                   | (Inr meta, w3) \<Rightarrow>
                       (Inr (createDist modname pathname source meta), w3))))"

text \<open>
  "Mark as resolved": the record is bound to the module, and to every module it provides
  that is not bound yet.  The loop over \<open>d.Provides\<close> binds keys that are not bound, one
  per iteration, so its result does not depend on the order of the iterations.
\<close>

definition markResolved :: "string \<Rightarrow> Dist \<Rightarrow> (string, Dist) fmap \<Rightarrow> (string, Dist) fmap" where
  "markResolved modname d res = fmadd (fmmap (\<lambda>v. d) (Provides d)) (fmupd modname d res)"

text \<open>
  The loop "Resolve dependencies" over the requirements of the record, in the order
  \<open>deps\<close>, with the recursive call as a parameter; it stops at the first error.  A result
  \<open>None\<close> is a call that did not return.
\<close>

fun forDeps ::
  "(string \<Rightarrow> string \<Rightarrow> 's \<Rightarrow> ('x option \<times> 's) option) \<Rightarrow> (string \<times> string) list \<Rightarrow> 's
     \<Rightarrow> ('x option \<times> 's) option" where
  "forDeps f [] st = Some (None, st)"
| "forDeps f ((depMod, depVer) # deps) st =
     (case f depMod depVer st of
        None \<Rightarrow> None
      | Some (Some err, st') \<Rightarrow> Some (Some err, st')
      | Some (None, st') \<Rightarrow> forDeps f deps st')"

text \<open>The requirements of a record in the order in which the loop visits them.\<close>

definition depsInOrder :: "string list \<Rightarrow> (string, string) fmap \<Rightarrow> (string \<times> string) list" where
  "depsInOrder order reqs =
     List.map_filter (\<lambda>k. map_option (\<lambda>v. (k, v)) (fmlookup reqs k)) order"

text \<open>
  \<open>resolveOne\<close>.  The recursion need not end (the indexes may describe an endless chain
  of requirements), so the function takes a bound \<open>fuel\<close> on the depth of the calls and
  returns \<open>None\<close> when the bound is reached; otherwise it returns the error (\<open>None\<close> is
  Go's \<open>nil\<close>) and the state of the resolver.  The deferred
  \<open>delete(r.resolving, module)\<close> runs on every exit that follows
  \<open>r.resolving[module] = true\<close>.  The calls of \<open>logFn\<close> are left out.
\<close>

primrec resolveOne ::
  "nat \<Rightarrow> ('w, 'e, 'f) services \<Rightarrow> string \<Rightarrow> string \<Rightarrow> 'w resolver
     \<Rightarrow> ('e resolveError option \<times> 'w resolver) option" where
  "resolveOne 0 sv modname version r = None"
| "resolveOne (Suc fuel) sv modname version r =
     (if isCore modname then Some (None, r)
      else if (case fmlookup (resolved r) modname of
                 Some d \<Rightarrow> satisfies (mapIndex (Provides d) modname) version
               | None \<Rightarrow> False)
      then Some (None, r)
      else if modname |\<in>| resolving r then Some (None, r)
      else
        (case fetchDist sv modname version (world r) of
           (Inl err, w) \<Rightarrow>
             Some (Some err,
                   r\<lparr>resolving := finsert modname (resolving r) |-| {|modname|}, world := w\<rparr>)
         | (Inr d, w) \<Rightarrow>
             (case forDeps (resolveOne fuel sv)
                     (depsInOrder (rangeOrder sv w (fmdom (Requirements d))) (Requirements d))
                     \<lparr>resolved = markResolved modname d (resolved r),
                      resolving = finsert modname (resolving r), world = w\<rparr> of
                None \<Rightarrow> None
              | Some (err, r') \<Rightarrow>
                  Some (err, r'\<lparr>resolving := resolving r' |-| {|modname|}\<rparr>))))"

text \<open>
  \<open>Resolve\<close>: the requirements are resolved in order; the result is the first error, or
  the records bound in \<open>resolved\<close>, one for each key, in the order of a \<open>range\<close> loop.
\<close>

definition Resolve ::
  "nat \<Rightarrow> ('w, 'e, 'f) services \<Rightarrow> VersionReq list \<Rightarrow> 'w resolver
     \<Rightarrow> (('e resolveError + Dist list) \<times> 'w resolver) option" where
  "Resolve fuel sv reqs r =
     (case forDeps (resolveOne fuel sv) (map (\<lambda>req. (reqModule req, reqVersion req)) reqs) r of
        None \<Rightarrow> None
      | Some (Some err, r') \<Rightarrow> Some (Inl err, r')
      | Some (None, r') \<Rightarrow>
          Some (Inr (List.map_filter (fmlookup (resolved r'))
                       (rangeOrder sv (world r') (fmdom (resolved r')))), r'))"

text \<open>\<open>NewResolver\<close>: nothing is resolved and nothing is being resolved.\<close>

definition NewResolver :: "'w \<Rightarrow> 'w resolver" where
  "NewResolver w = \<lparr>resolved = fmempty, resolving = {||}, world = w\<rparr>"

section \<open>Notions the specification uses\<close>

subsection \<open>Version sequences\<close>

text \<open>
  The specification compares two integer sequences lexicographically, "with missing
  trailing components treated as 0": \<open>padTo n xs\<close> extends \<open>xs\<close> with zeros to length
  \<open>n\<close>, and the order on \<^typ>\<open>int list\<close> is the lexicographic one (\<open>List_Lexorder\<close>).
\<close>

definition padTo :: "nat \<Rightarrow> int list \<Rightarrow> int list" where
  "padTo n xs = xs @ replicate (n - length xs) 0"

text \<open>
  The groups of a decimal-format fractional part, as the specification words them: the
  digits cut from the left into groups of three (the last group is what remains).
\<close>

function groups3 :: "string \<Rightarrow> string list" where
  "groups3 s = (if s = [] then [] else take 3 s # groups3 (drop 3 s))"
  by pat_completeness auto
termination
  by (relation "measure length") auto

declare groups3.simps [simp del]

subsection \<open>The normalized constraint of a snapshot requirement\<close>

text \<open>
  The specification's wording of the normalized constraint: the constraint with the
  surrounding white space stripped, cut before the first comma, with one leading operator
  of \<open>>=\<close>, \<open>>\<close>, \<open>==\<close>, \<open>=\<close> stripped, trimmed again, and \<open>0\<close> when nothing is left.
\<close>

definition beforeComma :: "string \<Rightarrow> string" where
  "beforeComma v = takeWhile (\<lambda>c. c \<noteq> CHR '','') v"

definition stripOneOperator :: "string \<Rightarrow> string" where
  "stripOneOperator v =
     (if HasPrefix v ''>='' then drop 2 v
      else if HasPrefix v ''>'' then drop 1 v
      else if HasPrefix v ''=='' then drop 2 v
      else if HasPrefix v ''='' then drop 1 v
      else v)"

definition spec_normalizedConstraint :: "string \<Rightarrow> string" where
  "spec_normalizedConstraint C =
     (let w = TrimSpace (stripOneOperator (beforeComma (TrimSpace C)))
      in if w = [] then ''0'' else w)"

text \<open>
  A constraint has stacked operators when the text left after one operator is stripped
  begins with another operator that the emitter strips later in its sequence.
\<close>

definition stackedOperators :: "string \<Rightarrow> bool" where
  "stackedOperators v = (HasPrefix v ''>=>'' \<or> HasPrefix v ''>=='' \<or> HasPrefix v ''==='')"

subsection \<open>The union of the requirement sources\<close>

text \<open>
  The sources of requirements in the priority order of the specification, each as a map
  from modules to version strings: the dependency maps of the modern schema that are
  present, then the three legacy maps, then the two maps of \<open>x_alienfile\<close>.
\<close>

definition modernSources :: "'f MetaFile \<Rightarrow> (string, 'f jvalue) fmap list" where
  "modernSources meta =
     concat (map (\<lambda>phase.
         case fmlookup (metaPrereqs meta) phase of
           None \<Rightarrow> []
         | Some phaseReqs \<Rightarrow>
             concat (map (\<lambda>depType.
                 case fmlookup phaseReqs depType of
                   Some (DMap reqMap) \<Rightarrow> [reqMap]
                 | _ \<Rightarrow> [])
               [''requires'', ''recommends'', ''suggests'']))
       [''runtime'', ''configure'', ''build''])"

definition sources :: "('f \<Rightarrow> string) \<Rightarrow> 'f MetaFile \<Rightarrow> (string, string) fmap list" where
  "sources fmtG meta =
     map (fmmap (versionString fmtG))
       (modernSources meta
        @ [metaRequires meta, metaBuildRequires meta, metaConfigureRequires meta,
           metaShare meta, metaSystem meta])"

text \<open>
  The union with first writer wins, as the specification words it: a key takes the value
  of the first source that has it.
\<close>

definition unionFirstWins :: "(string, string) fmap list \<Rightarrow> (string, string) fmap" where
  "unionFirstWins srcs = foldl (\<lambda>acc m. fmadd m acc) fmempty srcs"

text \<open>
  The values the sources give to a module, in priority order, and the first of them that
  is not the empty string (the empty string when there is none).
\<close>

definition valuesOf :: "string \<Rightarrow> (string, string) fmap list \<Rightarrow> string list" where
  "valuesOf modname srcs = List.map_filter (\<lambda>m. fmlookup m modname) srcs"

definition firstNonEmpty :: "string list \<Rightarrow> string" where
  "firstNonEmpty vs = (case filter (\<lambda>v. v \<noteq> []) vs of v # _ \<Rightarrow> v | [] \<Rightarrow> [])"

subsection \<open>Invariants of the resolved map\<close>

text \<open>Every module bound in \<open>resolved\<close> is a key of the \<open>Provides\<close> of its record.\<close>

definition providesBound :: "(string, Dist) fmap \<Rightarrow> bool" where
  "providesBound res = fmpred (\<lambda>modname d. modname |\<in>| fmdom (Provides d)) res"

text \<open>Every record bound in \<open>resolved\<close> provides a module that is not a core module.\<close>

definition providesNonCore :: "(string, Dist) fmap \<Rightarrow> bool" where
  "providesNonCore res =
     fmpred (\<lambda>modname d. fBex (fmdom (Provides d)) (\<lambda>k. \<not> isCore k)) res"

subsection \<open>A small index to run the resolver on\<close>

text \<open>
  The primary index lists \<open>Foo\<close> 2.0 and \<open>Test2::API\<close>; the distribution of \<open>Foo\<close>
  requires \<open>Test2::API\<close>, whose distribution \<open>Test-Simple\<close> also provides the core module
  \<open>Test::More\<close>.  Every download succeeds, the historical index knows nothing, and the
  keys of a map are visited in alphabetical order.
\<close>

definition fooMeta :: "unit MetaFile" where
  "fooMeta =
     \<lparr>metaName = ''Foo'', metaVersion = ''2.0'',
      metaProvides = fmupd ''Foo'' \<lparr>entryFile = ''lib/Foo.pm'', providesVersion = ''2.0''\<rparr> fmempty,
      metaPrereqs = fmempty,
      metaRequirements = fmupd ''Test2::API'' ''1.302'' fmempty,
      metaShare = fmempty, metaSystem = fmempty, metaRequires = fmempty,
      metaBuildRequires = fmempty, metaConfigureRequires = fmempty\<rparr>"

definition testSimpleMeta :: "unit MetaFile" where
  "testSimpleMeta =
     \<lparr>metaName = ''Test-Simple'', metaVersion = ''1.302'',
      metaProvides =
        fmupd ''Test2::API'' \<lparr>entryFile = ''lib/Test2/API.pm'', providesVersion = ''1.302''\<rparr>
          (fmupd ''Test::More'' \<lparr>entryFile = ''lib/Test/More.pm'', providesVersion = ''1.302''\<rparr>
             fmempty),
      metaPrereqs = fmempty, metaRequirements = fmempty,
      metaShare = fmempty, metaSystem = fmempty, metaRequires = fmempty,
      metaBuildRequires = fmempty, metaConfigureRequires = fmempty\<rparr>"

definition smallIndex :: "(unit, string, unit) services" where
  "smallIndex =
     \<lparr>cpanModules =
        fmupd ''Foo''
          \<lparr>entryModule = ''Foo'', entryVersion = ''2.0'',
           entryPathname = ''A/AU/AUTHOR/Foo-2.0.tar.gz''\<rparr>
          (fmupd ''Test2::API''
             \<lparr>entryModule = ''Test2::API'', entryVersion = ''1.302'',
              entryPathname = ''E/EX/EXODIST/Test-Simple-1.302.tar.gz''\<rparr>
             fmempty),
      cpanMirror = ''https://cpan.example'',
      backpanLookup = (\<lambda>modname version w. (Inl ''not found'', w)),
      backpanDir = ''backpan'',
      cacheDir = ''cache'',
      filepathJoin = (\<lambda>a b. a @ ''/'' @ b),
      Download = (\<lambda>jobs w. (map (\<lambda>job. (job, None)) jobs, w)),
      ExtractWithConfigure = (\<lambda>path w.
        (if path = ''cache/A/AU/AUTHOR/Foo-2.0.tar.gz'' then Inr fooMeta
         else if path = ''cache/E/EX/EXODIST/Test-Simple-1.302.tar.gz'' then Inr testSimpleMeta
         else Inl ''no META.json or META.yml found in tarball'', w)),
      rangeOrder = (\<lambda>w keys. sorted_list_of_fset keys)\<rparr>"

text \<open>The records the resolver creates from this index, and an older record of \<open>Foo\<close>.\<close>

definition foo2 :: Dist where
  "foo2 = \<lparr>Name = ''Foo-2.0'', Pathname = ''A/AU/AUTHOR/Foo-2.0.tar.gz'',
           Provides = fmupd ''Foo'' ''2.0'' fmempty,
           Requirements = fmupd ''Test2::API'' ''1.302'' fmempty, Source = ''cpan''\<rparr>"

definition testSimple :: Dist where
  "testSimple =
     \<lparr>Name = ''Test-Simple-1.302'', Pathname = ''E/EX/EXODIST/Test-Simple-1.302.tar.gz'',
      Provides = fmupd ''Test2::API'' ''1.302'' (fmupd ''Test::More'' ''1.302'' fmempty),
      Requirements = fmempty, Source = ''cpan''\<rparr>"


subsection \<open>The configure step of the extractor\<close>






subsection \<open>The round trip of a snapshot\<close>

text \<open>
  What a snapshot keeps of a record: the name and the pathname, the provided versions with
  \<open>undef\<close> in place of an empty version, the requirements with their normalized
  constraints, and no source tag.
\<close>

definition canonical :: "Dist \<Rightarrow> Dist" where
  "canonical d =
     \<lparr>Name = Name d, Pathname = Pathname d,
      Provides = fmmap (\<lambda>v. if v = [] then ''undef'' else v) (Provides d),
      Requirements = fmmap snapshot_normalizeVersion (Requirements d),
      Source = []\<rparr>"

text \<open>
  The records that the format can carry.  A name (of a distribution or of a module) is
  not empty and has no white space; a text written at the end of a line has no newline
  and does not end with a carriage return.
\<close>

definition nameText :: "string \<Rightarrow> bool" where
  "nameText s = (s \<noteq> [] \<and> list_all (\<lambda>c. \<not> reSpace c) s)"

definition lineText :: "string \<Rightarrow> bool" where
  "lineText s = (CHR 0x0A \<notin> set s \<and> (s = [] \<or> last s \<noteq> CHR 0x0D))"

definition wellFormed :: "Dist \<Rightarrow> bool" where
  "wellFormed d =
     (nameText (Name d) \<and> lineText (Pathname d)
      \<and> fmpred (\<lambda>k v. nameText k \<and> lineText v) (Provides d)
      \<and> fmpred (\<lambda>k v. nameText k \<and> CHR 0x0A \<notin> set v) (Requirements d))"

text \<open>The lines that \<open>emitDist\<close> writes for a record, and the lines of a whole snapshot.\<close>

definition nameLine :: "string \<Rightarrow> string" where
  "nameLine n = ''  '' @ n"

definition pathnameLine :: "string \<Rightarrow> string" where
  "pathnameLine p = ''    pathname: '' @ p"

definition moduleLine :: "string \<Rightarrow> string \<Rightarrow> string" where
  "moduleLine modname version = ''      '' @ modname @ '' '' @ version"

definition providesLine :: "Dist \<Rightarrow> string \<Rightarrow> string" where
  "providesLine d modname =
     moduleLine modname
       (if mapIndex (Provides d) modname = [] then ''undef'' else mapIndex (Provides d) modname)"

definition requirementsLine :: "Dist \<Rightarrow> string \<Rightarrow> string" where
  "requirementsLine d modname =
     moduleLine modname (snapshot_normalizeVersion (mapIndex (Requirements d) modname))"

definition distLines :: "Dist \<Rightarrow> string list" where
  "distLines d =
     [nameLine (Name d), pathnameLine (Pathname d)]
     @ (if fmdom (Provides d) \<noteq> {||}
        then ''    provides:'' # map (providesLine d) (sortedKeys (Provides d)) else [])
     @ (if fmdom (Requirements d) \<noteq> {||}
        then ''    requirements:'' # map (requirementsLine d) (sortedKeys (Requirements d))
        else [])"

definition snapshotLines :: "Dist list \<Rightarrow> string list" where
  "snapshotLines ds =
     [''# carton snapshot format: version 1.0'', ''DISTRIBUTIONS''] @ concat (map distLines ds)"

text \<open>A text made of lines, each ended by a newline.\<close>

definition unlines :: "string list \<Rightarrow> string" where
  "unlines ls = concat (map (\<lambda>l. l @ [CHR 0x0A]) ls)"

text \<open>The records that \<open>Parse\<close> returns from the state of its loop.\<close>

definition flush :: "parseState \<Rightarrow> Dist list" where
  "flush st = (case current st of Some d \<Rightarrow> dists st @ [d] | None \<Rightarrow> dists st)"

section \<open>Facts about the string functions\<close>

lemma Split_no_sep: "sep \<notin> set s \<Longrightarrow> Split s sep = [s]"
proof -
  assume "sep \<notin> set s"
  then have h: "dropWhile (\<lambda>c. c \<noteq> sep) s = []" by (auto simp: dropWhile_eq_Nil_conv)
  show ?thesis by (subst Split.simps, subst h) simp
qed

lemma Split_append: "sep \<notin> set a \<Longrightarrow> Split (a @ sep # r) sep = a # Split r sep"
  apply (subst Split.simps)
  apply (simp add: dropWhile_append3 takeWhile_append2 dropWhile_append takeWhile_append)
  done

lemma TrimLeftSpace_id: "space_width s = 0 \<Longrightarrow> TrimLeftSpace s = s"
  by (subst TrimLeftSpace.simps) simp

lemma TrimRightSpace_id: "space_width_last s = 0 \<Longrightarrow> TrimRightSpace s = s"
  by (subst TrimRightSpace.simps) simp

lemma length_TrimLeftSpace: "length (TrimLeftSpace s) \<le> length s"
proof (induction s rule: TrimLeftSpace.induct)
  case (1 s)
  show ?case
  proof (cases "space_width s = 0")
    case True
    then show ?thesis by (simp add: TrimLeftSpace_id)
  next
    case False
    with 1 have "length (TrimLeftSpace (drop (space_width s) s)) \<le> length (drop (space_width s) s)"
      by simp
    with False show ?thesis by (subst TrimLeftSpace.simps) simp
  qed
qed

lemma length_TrimRightSpace: "length (TrimRightSpace s) \<le> length s"
proof (induction s rule: TrimRightSpace.induct)
  case (1 s)
  show ?case
  proof (cases "space_width_last s = 0")
    case True
    then show ?thesis by (simp add: TrimRightSpace_id)
  next
    case False
    with 1 have "length (TrimRightSpace (take (length s - space_width_last s) s))
        \<le> length (take (length s - space_width_last s) s)"
      by simp
    with False show ?thesis by (subst TrimRightSpace.simps) simp
  qed
qed

lemma TrimLeftSpace_fix: "TrimLeftSpace s = s \<Longrightarrow> space_width s = 0"
proof (rule ccontr)
  assume fx: "TrimLeftSpace s = s" and nz: "space_width s \<noteq> 0"
  have "length (TrimLeftSpace (drop (space_width s) s)) \<le> length (drop (space_width s) s)"
    by (rule length_TrimLeftSpace)
  moreover have "TrimLeftSpace s = TrimLeftSpace (drop (space_width s) s)"
    using nz by (subst TrimLeftSpace.simps) simp
  moreover have "space_width s \<le> length s" by (rule space_width_le)
  ultimately show False using fx nz by (cases s) auto
qed

lemma TrimRightSpace_fix: "TrimRightSpace s = s \<Longrightarrow> space_width_last s = 0"
proof (rule ccontr)
  assume fx: "TrimRightSpace s = s" and nz: "space_width_last s \<noteq> 0"
  have "length (TrimRightSpace (take (length s - space_width_last s) s))
      \<le> length (take (length s - space_width_last s) s)"
    by (rule length_TrimRightSpace)
  moreover have "TrimRightSpace s = TrimRightSpace (take (length s - space_width_last s) s)"
    using nz by (subst TrimRightSpace.simps) simp
  moreover have "space_width_last s \<le> length s" by (rule space_width_last_le)
  ultimately show False using fx nz by (cases s) auto
qed

lemma TrimSpace_fix_iff:
  "TrimSpace s = s \<longleftrightarrow> space_width s = 0 \<and> space_width_last s = 0"
proof
  assume fx: "TrimSpace s = s"
  have "length (TrimRightSpace (TrimLeftSpace s)) \<le> length (TrimLeftSpace s)"
    by (rule length_TrimRightSpace)
  with fx have "length s \<le> length (TrimLeftSpace s)" by (simp add: TrimSpace_def)
  with length_TrimLeftSpace [of s] have eq: "length (TrimLeftSpace s) = length s" by simp
  have l0: "space_width s = 0"
  proof (rule ccontr)
    assume nz: "space_width s \<noteq> 0"
    have "length (TrimLeftSpace (drop (space_width s) s)) \<le> length (drop (space_width s) s)"
      by (rule length_TrimLeftSpace)
    moreover have "TrimLeftSpace s = TrimLeftSpace (drop (space_width s) s)"
      using nz by (subst TrimLeftSpace.simps) simp
    moreover have "space_width s \<le> length s" by (rule space_width_le)
    ultimately show False using eq nz by (cases s) auto
  qed
  then have "TrimLeftSpace s = s" by (rule TrimLeftSpace_id)
  with fx have "TrimRightSpace s = s" by (simp add: TrimSpace_def)
  then have "space_width_last s = 0" by (rule TrimRightSpace_fix)
  with l0 show "space_width s = 0 \<and> space_width_last s = 0" by simp
next
  assume "space_width s = 0 \<and> space_width_last s = 0"
  then show "TrimSpace s = s"
    by (simp add: TrimSpace_def TrimLeftSpace_id TrimRightSpace_id)
qed

lemma TrimSpace_blank_cons: "TrimSpace (CHR '' '' # s) = TrimSpace s"
proof -
  have "space_width (CHR '' '' # s) = 1"
    by (cases "CHR '' '' # s" rule: space_width.cases) (auto simp: asciiSpace_def)
  then have "TrimLeftSpace (CHR '' '' # s) = TrimLeftSpace s"
    by (subst TrimLeftSpace.simps) simp
  then show ?thesis by (simp add: TrimSpace_def)
qed

lemma TrimSpace_Nil: "TrimSpace [] = []"
  by code_simp

subsection \<open>White space at the two ends of a string\<close>

lemma list6_cases:
  fixes w :: "'a list"
  obtains "w = []" | a where "w = [a]" | a b where "w = [a, b]" | a b c where "w = [a, b, c]"
  | a b c d where "w = [a, b, c, d]" | a b c d e where "w = [a, b, c, d, e]"
  | a b c d e f r where "w = a # b # c # d # e # f # r"
  by (metis list.exhaust)

lemma sw_le3: "space_width w \<le> 3"
  by (cases w rule: space_width.cases) auto

lemma swl_le3: "space_width_last w \<le> 3"
  by (cases "rev w" rule: space_width.cases) (auto simp: space_width_last_def)

lemma space2_not_ascii: "space2 a b \<Longrightarrow> \<not> asciiSpace a \<and> \<not> asciiSpace b"
  by (auto simp: space2_def asciiSpace_def)

lemma space3_not_ascii: "space3 a b c \<Longrightarrow> \<not> asciiSpace a \<and> \<not> asciiSpace b \<and> \<not> asciiSpace c"
  by (auto simp: space3_def asciiSpace_def)

lemma space2_space3:
  "space2 a b \<Longrightarrow> \<not> space3 a x y \<and> \<not> space3 b x y \<and> \<not> space2 b x"
  by (auto simp: space3_def space2_def)

lemma space3_space3:
  "space3 a b c \<Longrightarrow> \<not> space3 b x y \<and> \<not> space3 c x y \<and> \<not> space2 b x \<and> \<not> space2 c x"
  by (auto simp: space3_def space2_def)

lemma no_overlap:
  assumes "space_width w > 0" "space_width_last w > 0"
  shows "space_width w + space_width_last w \<le> length w
         \<or> (space_width w = length w \<and> space_width_last w = length w)"
proof (cases w rule: list6_cases)
  case (7 a b c d e f r)
  with sw_le3 [of w] swl_le3 [of w] show ?thesis by simp
qed (use assms in \<open>auto simp: space_width_last_def split: if_splits dest: space2_not_ascii space3_not_ascii space2_space3 space3_space3\<close>)


lemma sw_take0: "space_width v = 0 \<Longrightarrow> space_width (take n v) = 0"
  apply (cases v rule: space_width.cases)
     apply (cases n; cases "n - 1"; cases "n - 2"; auto simp: split: if_splits)+
  done

lemma swl_append: "space_width_last v > 0 \<Longrightarrow> space_width_last (u @ v) = space_width_last v"
  apply (cases "rev v" rule: space_width.cases)
     apply (auto simp: space_width_last_def space2_def space3_def asciiSpace_def split: if_splits list.splits)
  done

lemma sw_append: "space_width u > 0 \<Longrightarrow> space_width (u @ v) = space_width u"
  by (cases u rule: space_width.cases; cases v rule: space_width.cases) (auto split: if_splits)

lemma sw_take: "space_width w = k \<Longrightarrow> k > 0 \<Longrightarrow> k \<le> n \<Longrightarrow> space_width (take n w) = k"
  apply (cases w rule: space_width.cases)
     apply (cases n; cases "n - 1"; cases "n - 2"; auto simp: split: if_splits)+
  done

lemma swl_drop:
  "space_width_last (u @ v) = j \<Longrightarrow> j > 0 \<Longrightarrow> j \<le> length v \<Longrightarrow> space_width_last v = j"
  apply (cases "rev v" rule: space_width.cases)
     apply (auto simp: space_width_last_def split: if_splits list.splits)
  done

lemma swl_exact:
  assumes "w \<noteq> []" "space_width w = length w"
  shows "space_width_last w = length w"
proof (cases w rule: list6_cases)
  case (5 a b c d)
  with sw_le3 [of w] assms show ?thesis by simp
next
  case (6 a b c d e)
  with sw_le3 [of w] assms show ?thesis by simp
next
  case (7 a b c d e f r)
  with sw_le3 [of w] assms show ?thesis by simp
qed (use assms in \<open>auto simp: space_width_last_def split: if_splits
       dest: space2_not_ascii space3_not_ascii space2_space3 space3_space3\<close>)

lemma TrimRightSpace_Nil: "TrimRightSpace [] = []"
  by (rule TrimRightSpace_id) (simp add: space_width_last_def)

lemma TrimLeftSpace_Nil: "TrimLeftSpace [] = []"
  by (rule TrimLeftSpace_id) simp

lemma TRS_head:
  "space_width w > 0 \<Longrightarrow> TrimRightSpace w =
     (if TrimRightSpace (drop (space_width w) w) = [] then []
      else take (space_width w) w @ TrimRightSpace (drop (space_width w) w))"
proof (induction w rule: TrimRightSpace.induct)
  case (1 s)
  define k where "k = space_width s"
  define j where "j = space_width_last s"
  have k0: "k > 0" using 1 by (simp add: k_def)
  have kle: "k \<le> length s" unfolding k_def by (rule space_width_le)
  have jle: "j \<le> length s" unfolding j_def by (rule space_width_last_le)
  have goal: "TrimRightSpace s =
     (if TrimRightSpace (drop k s) = [] then [] else take k s @ TrimRightSpace (drop k s))"
  proof (cases "j = 0")
    case True
    have id: "TrimRightSpace s = s" using True by (simp add: TrimRightSpace_id j_def)
    have dne: "drop k s \<noteq> []"
    proof
      assume "drop k s = []"
      with kle have kl: "k = length s" by simp
      with k0 have "s \<noteq> []" by auto
      with kl have "space_width_last s = length s" by (simp add: swl_exact k_def)
      with True kl k0 show False by (simp add: j_def)
    qed
    have "space_width_last (drop k s) = 0"
    proof (rule ccontr)
      assume "space_width_last (drop k s) \<noteq> 0"
      then have "space_width_last (take k s @ drop k s) = space_width_last (drop k s)"
        by (intro swl_append) simp
      with \<open>space_width_last (drop k s) \<noteq> 0\<close> True show False by (simp add: j_def)
    qed
    then have "TrimRightSpace (drop k s) = drop k s" by (rule TrimRightSpace_id)
    with id dne show ?thesis by simp
  next
    case False
    let ?s2 = "take (length s - j) s"
    have step: "TrimRightSpace s = TrimRightSpace ?s2"
      using False by (subst TrimRightSpace.simps) (simp add: j_def)
    have "k + j \<le> length s \<or> (k = length s \<and> j = length s)"
      using no_overlap [of s] k0 False by (simp add: k_def j_def)
    then show ?thesis
    proof
      assume both: "k = length s \<and> j = length s"
      then show ?thesis using step by (simp add: TrimRightSpace_Nil)
    next
      assume le: "k + j \<le> length s"
      have sw2: "space_width ?s2 = k"
        using le k0 by (intro sw_take) (simp_all add: k_def)
      have pos2: "0 < space_width ?s2" using sw2 k0 by simp
      have jn: "space_width_last s \<noteq> 0" using False by (simp add: j_def)
      have "TrimRightSpace (take (length s - space_width_last s) s) =
         (if TrimRightSpace (drop (space_width (take (length s - space_width_last s) s))
               (take (length s - space_width_last s) s)) = [] then []
          else take (space_width (take (length s - space_width_last s) s))
                 (take (length s - space_width_last s) s)
               @ TrimRightSpace (drop (space_width (take (length s - space_width_last s) s))
                   (take (length s - space_width_last s) s)))"
        using jn pos2 unfolding j_def by (rule "1.IH")
      then have IH: "TrimRightSpace ?s2 =
         (if TrimRightSpace (drop k ?s2) = [] then []
          else take k ?s2 @ TrimRightSpace (drop k ?s2))"
        unfolding j_def [symmetric] sw2 .
      have d2: "drop k ?s2 = take (length (drop k s) - j) (drop k s)"
        by (simp add: drop_take add.commute)
      have "space_width_last (take k s @ drop k s) = j" by (simp add: j_def)
      moreover have "0 < j" using False by simp
      moreover have "j \<le> length (drop k s)" using le by simp
      ultimately have swl: "space_width_last (drop k s) = j"
        by (rule swl_drop)
      have "TrimRightSpace (drop k s)
          = TrimRightSpace (take (length (drop k s) - space_width_last (drop k s)) (drop k s))"
        using False swl by (subst TrimRightSpace.simps) simp
      then have t2: "TrimRightSpace (drop k s) = TrimRightSpace (drop k ?s2)"
        unfolding swl d2 [symmetric] .
      have "k \<le> length s - j" using le by simp
      then have t3: "take k ?s2 = take k s" by (simp add: min_absorb1)
      have "TrimRightSpace s = TrimRightSpace ?s2" by (rule step)
      also have "\<dots> = (if TrimRightSpace (drop k ?s2) = [] then []
          else take k ?s2 @ TrimRightSpace (drop k ?s2))" by (rule IH)
      also have "\<dots> = (if TrimRightSpace (drop k s) = [] then []
          else take k s @ TrimRightSpace (drop k s))"
        unfolding t2 [symmetric] t3 ..
      finally show ?thesis .
    qed
  qed
  then show ?case unfolding k_def .
qed

lemma TRS_is_take: "\<exists>n. TrimRightSpace s = take n s"
proof (induction s rule: TrimRightSpace.induct)
  case (1 s)
  show ?case
  proof (cases "space_width_last s = 0")
    case True
    then have "TrimRightSpace s = take (length s) s" by (simp add: TrimRightSpace_id)
    then show ?thesis ..
  next
    case False
    with 1 obtain n where
      "TrimRightSpace (take (length s - space_width_last s) s)
         = take n (take (length s - space_width_last s) s)" by auto
    moreover have "TrimRightSpace s = TrimRightSpace (take (length s - space_width_last s) s)"
      using False by (subst TrimRightSpace.simps) simp
    ultimately have "TrimRightSpace s = take (min n (length s - space_width_last s)) s"
      by (simp add: min.commute)
    then show ?thesis ..
  qed
qed

lemma sw_TRS0: "space_width s = 0 \<Longrightarrow> space_width (TrimRightSpace s) = 0"
  using TRS_is_take [of s] by (auto simp: sw_take0)

lemma swl_TRS: "space_width_last (TrimRightSpace s) = 0"
proof (induction s rule: TrimRightSpace.induct)
  case (1 s)
  show ?case
  proof (cases "space_width_last s = 0")
    case True
    then show ?thesis by (simp add: TrimRightSpace_id)
  next
    case False
    moreover have "TrimRightSpace s = TrimRightSpace (take (length s - space_width_last s) s)"
      using False by (subst TrimRightSpace.simps) simp
    ultimately show ?thesis using 1 by simp
  qed
qed

lemma sw_TLS: "space_width (TrimLeftSpace s) = 0"
proof (induction s rule: TrimLeftSpace.induct)
  case (1 s)
  show ?case
  proof (cases "space_width s = 0")
    case True
    then show ?thesis by (simp add: TrimLeftSpace_id)
  next
    case False
    moreover have "TrimLeftSpace s = TrimLeftSpace (drop (space_width s) s)"
      using False by (subst TrimLeftSpace.simps) simp
    ultimately show ?thesis using 1 by simp
  qed
qed

lemma TLS_TRS_comm: "TrimLeftSpace (TrimRightSpace w) = TrimRightSpace (TrimLeftSpace w)"
proof (induction w rule: TrimLeftSpace.induct)
  case (1 s)
  define k where "k = space_width s"
  show ?case
  proof (cases "k = 0")
    case True
    then show ?thesis by (simp add: TrimLeftSpace_id sw_TRS0 k_def)
  next
    case False
    have kle: "k \<le> length s" unfolding k_def by (rule space_width_le)
    have tl: "TrimLeftSpace s = TrimLeftSpace (drop k s)"
      using False by (subst TrimLeftSpace.simps) (simp add: k_def)
    have IH: "TrimLeftSpace (TrimRightSpace (drop k s)) = TrimRightSpace (TrimLeftSpace (drop k s))"
      using 1 False by (simp add: k_def)
    have hd: "TrimRightSpace s =
       (if TrimRightSpace (drop k s) = [] then [] else take k s @ TrimRightSpace (drop k s))"
      using TRS_head [of s] False by (simp add: k_def)
    show ?thesis
    proof (cases "TrimRightSpace (drop k s) = []")
      case True
      with hd IH tl show ?thesis by (simp add: TrimLeftSpace_Nil)
    next
      case ne: False
      let ?T = "TrimRightSpace (drop k s)"
      have "space_width (take k s) = k" using False by (intro sw_take) (simp_all add: k_def)
      then have "space_width (take k s @ ?T) = k" using False sw_append [of "take k s" ?T] by simp
      then have "TrimLeftSpace (take k s @ ?T) = TrimLeftSpace ?T"
        using False kle by (subst TrimLeftSpace.simps) (simp add: min_def)
      with hd ne IH tl show ?thesis by simp
    qed
  qed
qed

lemma TrimSpace_TRS: "TrimSpace (TrimRightSpace w) = TrimSpace w"
  by (simp add: TrimSpace_def TLS_TRS_comm TrimRightSpace_id swl_TRS)

lemma sw_TrimSpace: "space_width (TrimSpace s) = 0"
  by (simp add: TrimSpace_def sw_TRS0 sw_TLS)

lemma swl_solid:
  "c = CHR ''>'' \<or> c = CHR ''='' \<or> c = CHR ''<'' \<Longrightarrow> space_width_last (c # s) = space_width_last s"
  by (cases "rev s" rule: space_width.cases)
     (auto simp: space_width_last_def asciiSpace_def space2_def space3_def)

lemma TRS_solid:
  "c = CHR ''>'' \<or> c = CHR ''='' \<or> c = CHR ''<'' \<Longrightarrow> TrimRightSpace (c # s) = c # TrimRightSpace s"
proof (induction s rule: TrimRightSpace.induct)
  case (1 s)
  define j where "j = space_width_last s"
  have jc: "space_width_last (c # s) = j" using 1(2) by (simp add: swl_solid j_def)
  have jle: "j \<le> length s" unfolding j_def by (rule space_width_last_le)
  show ?case
  proof (cases "j = 0")
    case True
    then show ?thesis using jc by (simp add: TrimRightSpace_id j_def)
  next
    case False
    have "TrimRightSpace (c # s) = TrimRightSpace (take (length (c # s) - j) (c # s))"
      using False jc by (subst TrimRightSpace.simps) simp
    also have "take (length (c # s) - j) (c # s) = c # take (length s - j) s"
      using jle by (simp add: Suc_diff_le)
    also have "TrimRightSpace (c # take (length s - j) s) = c # TrimRightSpace (take (length s - j) s)"
      using "1.IH" False 1(2) by (simp add: j_def)
    also have "TrimRightSpace (take (length s - j) s) = TrimRightSpace s"
      using False by (subst (2) TrimRightSpace.simps) (simp add: j_def)
    finally show ?thesis .
  qed
qed

lemma TRS_solid_append:
  "set p \<subseteq> {CHR ''>'', CHR ''='', CHR ''<''} \<Longrightarrow> TrimRightSpace (p @ s) = p @ TrimRightSpace s"
  by (induction p) (auto simp: TRS_solid)

lemma TrimPrefix_TRS:
  assumes "set p \<subseteq> {CHR ''>'', CHR ''='', CHR ''<''}"
  shows "TrimPrefix (TrimRightSpace x) p = TrimRightSpace (TrimPrefix x p)"
proof (cases "HasPrefix x p")
  case True
  then have x: "x = p @ drop (length p) x"
    by (metis HasPrefix_def append_take_drop_id)
  have "TrimRightSpace x = p @ TrimRightSpace (drop (length p) x)"
    by (subst x) (rule TRS_solid_append [OF assms])
  then show ?thesis using True by (simp add: TrimPrefix_def HasPrefix_def)
next
  case False
  obtain n where n: "TrimRightSpace x = take n x" using TRS_is_take by blast
  have "\<not> HasPrefix (take n x) p"
  proof
    assume h: "HasPrefix (take n x) p"
    then have "length p \<le> n"
      by (metis HasPrefix_def length_take min.cobounded2 min.coboundedI1 nat_le_linear take_all_iff)
    with h have "take (length p) x = p" by (simp add: HasPrefix_def min_absorb1)
    with False show False by (simp add: HasPrefix_def)
  qed
  with False n show ?thesis by (simp add: TrimPrefix_def)
qed

lemma TrimSpace_idem: "TrimSpace (TrimSpace s) = TrimSpace s"
  by (simp add: TrimSpace_fix_iff sw_TrimSpace) (simp add: TrimSpace_def swl_TRS)

lemma TRS_blank_cons:
  "TrimRightSpace (CHR '' '' # s) = [] \<or> hd (TrimRightSpace (CHR '' '' # s)) = CHR '' ''"
proof -
  obtain n where "TrimRightSpace (CHR '' '' # s) = take n (CHR '' '' # s)"
    using TRS_is_take by blast
  then show ?thesis by (cases n) simp_all
qed


section \<open>The version comparator\<close>

lemma padTo_nth: "i < n \<Longrightarrow> padTo n a ! i = (if i < length a then a ! i else 0)"
  by (auto simp: padTo_def nth_append)

lemma length_padTo: "length (padTo n a) = max n (length a)"
  by (auto simp: padTo_def)

lemma compareFrom_antisym: "compareFrom i n a b = - compareFrom i n b a"
  apply (induction i n a b rule: compareFrom.induct)
  apply (subst compareFrom.simps)
  apply (subst (2) compareFrom.simps)
  apply (auto simp: Let_def)
  done

lemma compareFrom_refl: "compareFrom i n a a = 0"
  using compareFrom_antisym [of i n a a] by simp

lemma compareFrom_lex:
  "length a \<le> n \<Longrightarrow> length b \<le> n \<Longrightarrow>
   compareFrom i n a b =
     (if drop i (padTo n a) < drop i (padTo n b) then - 1
      else if drop i (padTo n b) < drop i (padTo n a) then 1 else 0)"
proof (induction i n a b rule: compareFrom.induct)
  case (1 i n a b)
  have la: "length (padTo n a) = n" and lb: "length (padTo n b) = n"
    using 1 by (simp_all add: length_padTo max_def)
  show ?case
  proof (cases "i < n")
    case False
    then show ?thesis
      by (subst compareFrom.simps) (simp add: la lb)
  next
    case True
    have da: "drop i (padTo n a) = (padTo n a ! i) # drop (Suc i) (padTo n a)"
      using True la by (simp add: Cons_nth_drop_Suc)
    have db: "drop i (padTo n b) = (padTo n b ! i) # drop (Suc i) (padTo n b)"
      using True lb by (simp add: Cons_nth_drop_Suc)
    show ?thesis
      apply (subst compareFrom.simps)
      using True 1
      apply (simp only: da db)
      apply (auto simp: Let_def padTo_nth)
      done
  qed
qed

lemma compareVersions_antisym: "compareVersions a b = - compareVersions b a"
proof -
  have "(if length (normalizeVersion b) > length (normalizeVersion a)
         then length (normalizeVersion b) else length (normalizeVersion a))
      = (if length (normalizeVersion a) > length (normalizeVersion b)
         then length (normalizeVersion a) else length (normalizeVersion b))"
    by simp
  then show ?thesis
    unfolding compareVersions_def Let_def
    by (simp only: compareFrom_antisym [of 0 _ "normalizeVersion a" "normalizeVersion b"])
qed

lemma compareVersions_lex:
  "compareVersions a b =
    (let n = max (length (normalizeVersion a)) (length (normalizeVersion b));
         pa = padTo n (normalizeVersion a); pb = padTo n (normalizeVersion b)
     in if pa < pb then - 1 else if pb < pa then 1 else 0)"
proof -
  define na nb where "na = normalizeVersion a" and "nb = normalizeVersion b"
  define n where "n = max (length na) (length nb)"
  have mx: "(if length nb > length na then length nb else length na) = n"
    by (simp add: n_def max_def)
  have "length na \<le> n" "length nb \<le> n" by (simp_all add: n_def)
  from compareFrom_lex [OF this, of 0] show ?thesis
    unfolding compareVersions_def Let_def na_def [symmetric] nb_def [symmetric] mx n_def [symmetric]
    by simp
qed

lemma fracGroups_groups3: "fracGroups fr = map Atoi (groups3 fr)"
proof (induction fr rule: fracGroups.induct)
  case (1 fr)
  show ?case
  proof (cases "length fr > 3")
    case True
    then show ?thesis
      using 1 by (subst fracGroups.simps, subst groups3.simps) auto
  next
    case False
    show ?thesis
    proof (cases "fr = []")
      case True
      then show ?thesis by (subst fracGroups.simps, subst groups3.simps) simp
    next
      case False
      with \<open>\<not> 3 < length fr\<close> show ?thesis
        by (subst fracGroups.simps, subst groups3.simps, subst groups3.simps) simp
    qed
  qed
qed

lemma normalizeVersion_decimal:
  assumes "TrimPrefix v ''v'' = maj @ CHR ''.'' # fr"
    and "CHR ''.'' \<notin> set maj" and "CHR ''.'' \<notin> set fr" and "length fr > 3"
  shows "normalizeVersion v = Atoi maj # map Atoi (groups3 fr)"
  using assms
  by (simp add: normalizeVersion_def Let_def Split_append Split_no_sep fracGroups_groups3)

lemma compareVersions_examples:
  "compareVersions ''3.18.0'' ''3.007004'' > 0"
  "compareVersions ''2.005005'' ''2.005'' > 0"
  "compareVersions ''1.001'' ''1.1'' = 0"
  by code_simp+

text \<open>
  Claim C6.  The comparator is reflexive, \<open>cmp(v, v) = 0\<close>, and antisymmetric,
  \<open>cmp(a, b) = - cmp(b, a)\<close>; the three parity examples of the specification hold; a
  string in decimal format (after the optional \<open>v\<close>, exactly two components separated by
  a dot, the second longer than 3 bytes) parses as its major number followed by the
  fractional part read in groups of three from the left; and the comparison is the
  lexicographic one of the two integer sequences padded with zeros to the same length.
\<close>

theorem compareVersions_laws:
  "compareVersions v v = 0
   \<and> compareVersions a b = - compareVersions b a
   \<and> compareVersions ''3.18.0'' ''3.007004'' > 0
   \<and> compareVersions ''2.005005'' ''2.005'' > 0
   \<and> compareVersions ''1.001'' ''1.1'' = 0
   \<and> (TrimPrefix v ''v'' = maj @ CHR ''.'' # fr \<and> CHR ''.'' \<notin> set maj
        \<and> CHR ''.'' \<notin> set fr \<and> length fr > 3
      \<longrightarrow> normalizeVersion v = Atoi maj # map Atoi (groups3 fr))
   \<and> compareVersions a b =
       (let n = max (length (normalizeVersion a)) (length (normalizeVersion b));
            pa = padTo n (normalizeVersion a); pb = padTo n (normalizeVersion b)
        in if pa < pb then - 1 else if pb < pa then 1 else 0)"
proof -
  have "compareVersions v v = 0"
    using compareVersions_antisym [of v v] by simp
  moreover note compareVersions_antisym [of a b] compareVersions_examples
  moreover have "TrimPrefix v ''v'' = maj @ CHR ''.'' # fr \<and> CHR ''.'' \<notin> set maj
        \<and> CHR ''.'' \<notin> set fr \<and> length fr > 3
      \<longrightarrow> normalizeVersion v = Atoi maj # map Atoi (groups3 fr)"
    using normalizeVersion_decimal by blast
  moreover note compareVersions_lex [of a b]
  ultimately show ?thesis by blast
qed

theorem compareVersions_laws_witness:
  "compareVersions ''v3.007004'' ''v3.007004'' = 0
   \<and> compareVersions ''3.18.0'' ''0.080001'' = - compareVersions ''0.080001'' ''3.18.0''
   \<and> normalizeVersion ''v3.007004'' = [3, 7, 4]
   \<and> compareVersions ''3.18.0'' ''0.080001'' = 1"
proof -
  have pre: "TrimPrefix ''v3.007004'' ''v'' = ''3'' @ CHR ''.'' # ''007004''
      \<and> CHR ''.'' \<notin> set ''3'' \<and> CHR ''.'' \<notin> set ''007004'' \<and> length ''007004'' > 3"
    by (simp add: TrimPrefix_def HasPrefix_def)
  have val: "Atoi ''3'' # map Atoi (groups3 ''007004'') = [3, 7, 4]"
    by code_simp
  have lex: "(let n = max (length (normalizeVersion ''3.18.0'')) (length (normalizeVersion ''0.080001''));
            pa = padTo n (normalizeVersion ''3.18.0''); pb = padTo n (normalizeVersion ''0.080001'')
        in if pa < pb then - 1 else if pb < pa then 1 else (0::int)) = 1"
    by code_simp
  from compareVersions_laws [of "''v3.007004''" "''3.18.0''" "''0.080001''" "''3''" "''007004''"]
    pre val lex
  show ?thesis by simp
qed

section \<open>The constraint checker\<close>

lemma satisfiesOne_ge:
  "satisfiesOne h (TrimSpace (''>= '' @ A)) = (compareVersions h (TrimSpace A) \<ge> 0)"
proof -
  define T where "T = TrimRightSpace (CHR '' '' # A)"
  have "space_width (''>= '' @ A) = 0"
    by (simp add: asciiSpace_def space2_def space3_def)
  then have "TrimSpace (''>= '' @ A) = TrimRightSpace (''>='' @ CHR '' '' # A)"
    by (simp add: TrimSpace_def TrimLeftSpace_id)
  also have "\<dots> = ''>='' @ T"
    unfolding T_def by (rule TRS_solid_append) simp
  finally have w: "TrimSpace (''>= '' @ A) = ''>='' @ T" .
  define W where "W = ''>='' @ T"
  have idem: "TrimSpace W = W"
    using TrimSpace_idem [of "''>= '' @ A"] by (simp only: w W_def)
  have tt: "TrimSpace T = TrimSpace A"
    by (simp add: T_def TrimSpace_TRS TrimSpace_blank_cons)
  have d: "drop 2 W = T" "HasPrefix W ''>=''" "W \<noteq> []" "W \<noteq> ''0''"
    by (simp_all add: W_def HasPrefix_def)
  have "satisfiesOne h W = (compareVersions h (TrimSpace A) \<ge> 0)"
    by (simp add: satisfiesOne_def idem d tt Let_def)
  then show ?thesis by (simp only: w W_def)
qed

lemma satisfiesOne_lt:
  "satisfiesOne h (TrimSpace ('' < '' @ B)) = (compareVersions h (TrimSpace B) < 0)"
proof -
  define T where "T = TrimRightSpace (CHR '' '' # B)"
  have "TrimSpace ('' < '' @ B) = TrimSpace (''< '' @ B)"
    using TrimSpace_blank_cons [of "''< '' @ B"] by simp
  moreover have "space_width (''< '' @ B) = 0"
    by (cases B) (simp_all add: asciiSpace_def space2_def space3_def)
  then have "TrimSpace (''< '' @ B) = TrimRightSpace (''<'' @ CHR '' '' # B)"
    by (simp add: TrimSpace_def TrimLeftSpace_id)
  moreover have "TrimRightSpace (''<'' @ CHR '' '' # B) = ''<'' @ T"
    unfolding T_def by (rule TRS_solid_append) simp
  ultimately have w: "TrimSpace ('' < '' @ B) = ''<'' @ T" by simp
  define W where "W = ''<'' @ T"
  have idem: "TrimSpace W = W"
    using TrimSpace_idem [of "'' < '' @ B"] by (simp only: w W_def)
  have tt: "TrimSpace T = TrimSpace B"
    by (simp add: T_def TrimSpace_TRS TrimSpace_blank_cons)
  have hdT: "T = [] \<or> hd T = CHR '' ''" unfolding T_def by (rule TRS_blank_cons)
  have d: "drop (Suc 0) W = T" "HasPrefix W ''<''" "\<not> HasPrefix W ''>=''"
    "\<not> HasPrefix W ''!=''" "\<not> HasPrefix W ''>''" "W \<noteq> []" "W \<noteq> ''0''"
    by (simp_all add: W_def HasPrefix_def)
  have le: "\<not> HasPrefix W ''<=''"
    using hdT by (cases T) (auto simp: W_def HasPrefix_def)
  have "satisfiesOne h W = (compareVersions h (TrimSpace B) < 0)"
    by (simp add: satisfiesOne_def idem d le tt Let_def)
  then show ?thesis by (simp only: w W_def)
qed

lemma compareVersions_empty_have: "compareVersions ''0'' x = compareVersions [] x"
proof -
  have "normalizeVersion ''0'' = normalizeVersion []" by code_simp
  then show ?thesis by (simp add: compareVersions_def)
qed

lemma satisfies_range:
  assumes "CHR '','' \<notin> set A" and "CHR '','' \<notin> set B"
  shows "satisfies V (''>= '' @ A @ '', < '' @ B)
     = (V = ''undef'' \<or> (compareVersions V (TrimSpace A) \<ge> 0 \<and> compareVersions V (TrimSpace B) < 0))"
proof -
  define c1 c2 where "c1 = ''>= '' @ A" and "c2 = '' < '' @ B"
  define want where "want = ''>= '' @ A @ '', < '' @ B"
  have sp: "Split want (CHR '','') = [c1, c2]"
    using assms(1,2) Split_append [of "CHR '',''" "''>= '' @ A" "'' < '' @ B"]
    by (simp add: Split_no_sep want_def c1_def c2_def)
  have ne: "want \<noteq> []" "want \<noteq> ''0''" by (simp_all add: want_def)
  have s1: "\<And>h. satisfiesOne h (TrimSpace c1) = (compareVersions h (TrimSpace A) \<ge> 0)"
    unfolding c1_def by (rule satisfiesOne_ge)
  have s2: "\<And>h. satisfiesOne h (TrimSpace c2) = (compareVersions h (TrimSpace B) < 0)"
    unfolding c2_def by (rule satisfiesOne_lt)
  have "satisfies V want
     = (V = ''undef'' \<or> (compareVersions V (TrimSpace A) \<ge> 0 \<and> compareVersions V (TrimSpace B) < 0))"
    by (simp add: satisfies_def sp ne s1 s2 compareVersions_empty_have Let_def)
  then show ?thesis by (simp only: want_def)
qed


text \<open>
  The constraint checker compares a version with the bounds as written in the constraint
  less the white space around them: with a blank in front of the lower bound \<open>1\<close> the
  version \<open>0.5\<close> is refused, although the comparator reads the text \<open>" 1"\<close> as 0.
\<close>

lemma satisfies_range_untrimmed:
  "\<not> satisfies ''0.5'' (''>= '' @ '' 1'' @ '', < '' @ ''2'')
   \<and> compareVersions ''0.5'' '' 1'' \<ge> 0 \<and> compareVersions ''0.5'' ''2'' < 0"
  by code_simp

text \<open>
  Claim C7.  \<open>satisfies("undef", C)\<close> is true for every constraint \<open>C\<close>; \<open>satisfies(V, "")\<close>
  and \<open>satisfies(V, "0")\<close> are true for every version \<open>V\<close>; and for bounds \<open>A\<close> and \<open>B\<close>
  that contain no comma, \<open>satisfies(V, ">= A, < B")\<close> holds if and only if \<open>V\<close> is
  \<open>undef\<close> (the first law) or \<open>A \<le> V < B\<close> under the version comparator, where the
  white space around \<open>A\<close> and \<open>B\<close> is not part of the bounds: the two clauses separated by
  the comma are an intersection.
\<close>

theorem satisfies_laws:
  "satisfies ''undef'' C
   \<and> satisfies V []
   \<and> satisfies V ''0''
   \<and> (CHR '','' \<notin> set A \<and> CHR '','' \<notin> set B \<and> TrimSpace A = A \<and> TrimSpace B = B
      \<longrightarrow> satisfies V (''>= '' @ A @ '', < '' @ B)
          = (V = ''undef'' \<or> (compareVersions V A \<ge> 0 \<and> compareVersions V B < 0)))
   \<and> (CHR '','' \<notin> set A \<and> CHR '','' \<notin> set B
      \<longrightarrow> satisfies V (''>= '' @ A @ '', < '' @ B)
          = (V = ''undef''
             \<or> (compareVersions V (TrimSpace A) \<ge> 0 \<and> compareVersions V (TrimSpace B) < 0)))"
proof -
  have "satisfies ''undef'' C" "satisfies V []" "satisfies V ''0''"
    by (simp_all add: satisfies_def)
  moreover have gen: "CHR '','' \<notin> set A \<and> CHR '','' \<notin> set B
      \<longrightarrow> satisfies V (''>= '' @ A @ '', < '' @ B)
          = (V = ''undef''
             \<or> (compareVersions V (TrimSpace A) \<ge> 0 \<and> compareVersions V (TrimSpace B) < 0))"
    using satisfies_range [of A B V] by blast
  moreover have "CHR '','' \<notin> set A \<and> CHR '','' \<notin> set B \<and> TrimSpace A = A \<and> TrimSpace B = B
      \<longrightarrow> satisfies V (''>= '' @ A @ '', < '' @ B)
          = (V = ''undef'' \<or> (compareVersions V A \<ge> 0 \<and> compareVersions V B < 0))"
  proof
    assume h: "CHR '','' \<notin> set A \<and> CHR '','' \<notin> set B \<and> TrimSpace A = A \<and> TrimSpace B = B"
    then have "satisfies V (''>= '' @ A @ '', < '' @ B)
          = (V = ''undef''
             \<or> (compareVersions V (TrimSpace A) \<ge> 0 \<and> compareVersions V (TrimSpace B) < 0))"
      using gen by blast
    with h show "satisfies V (''>= '' @ A @ '', < '' @ B)
          = (V = ''undef'' \<or> (compareVersions V A \<ge> 0 \<and> compareVersions V B < 0))"
      by simp
  qed
  ultimately show ?thesis by blast
qed

theorem satisfies_laws_witness:
  "satisfies ''undef'' ''>= 2.0''
   \<and> satisfies ''1.5'' []
   \<and> satisfies ''1.5'' ''0''
   \<and> satisfies ''1.5'' ''>= 1.0, < 2.0''
   \<and> compareVersions ''1.5'' ''1.0'' \<ge> 0 \<and> compareVersions ''1.5'' ''2.0'' < 0"
proof -
  have pre: "CHR '','' \<notin> set ''1.0'' \<and> CHR '','' \<notin> set ''2.0''
      \<and> TrimSpace ''1.0'' = ''1.0'' \<and> TrimSpace ''2.0'' = ''2.0''"
    by code_simp
  have cmp: "compareVersions ''1.5'' ''1.0'' \<ge> 0 \<and> compareVersions ''1.5'' ''2.0'' < 0"
    by code_simp
  from satisfies_laws [of "''>= 2.0''" "''1.5''" "''1.0''" "''2.0''"] pre cmp
  show ?thesis by simp
qed

section \<open>The normalized constraint of the snapshot emitter\<close>

lemma Index_comma:
  "(case Index v '','' of Some idx \<Rightarrow> take idx v | None \<Rightarrow> v) = beforeComma v"
  by (induction v) (auto simp: beforeComma_def HasPrefix_def split: option.splits)

lemma Index_comma_None: "Index v '','' = None \<Longrightarrow> beforeComma v = v"
  using Index_comma [of v] by simp

lemma Index_comma_Some: "Index v '','' = Some idx \<Longrightarrow> take idx v = beforeComma v"
  using Index_comma [of v] by simp

lemma strip_single:
  "\<not> stackedOperators u \<Longrightarrow>
     TrimPrefix (TrimPrefix (TrimPrefix (TrimPrefix u ''>='') ''>'') ''=='') ''=''
       = stripOneOperator u"
  by (cases u rule: space_width.cases)
     (auto simp: stackedOperators_def TrimPrefix_def HasPrefix_def stripOneOperator_def)


lemma snapshot_normalizeVersion_seq:
  "snapshot_normalizeVersion C =
     (let w = TrimSpace (TrimPrefix (TrimPrefix (TrimPrefix (TrimPrefix
                (beforeComma (TrimSpace C)) ''>='') ''>'') ''=='') ''='')
      in if w = [] then ''0'' else w)"
proof -
  define v1 where "v1 = TrimSpace C"
  define u where "u = beforeComma v1"
  define strip4 where
    "strip4 = (\<lambda>x. TrimPrefix (TrimPrefix (TrimPrefix (TrimPrefix x ''>='') ''>'') ''=='') ''='')"
  define v2 where
    "v2 = (case Index v1 '','' of Some idx \<Rightarrow> TrimSpace (take idx v1) | None \<Rightarrow> v1)"
  have code: "snapshot_normalizeVersion C =
      (if v1 = [] then ''0''
       else if TrimSpace (strip4 v2) = [] then ''0'' else TrimSpace (strip4 v2))"
    by (simp only: snapshot_normalizeVersion_def Let_def v1_def v2_def strip4_def)
  have s4: "strip4 (TrimRightSpace x) = TrimRightSpace (strip4 x)" for x
    by (simp add: strip4_def TrimPrefix_TRS)
  have key: "TrimSpace (strip4 v2) = TrimSpace (strip4 u)"
  proof (cases "Index v1 '',''")
    case None
    then show ?thesis by (simp add: v2_def u_def Index_comma_None)
  next
    case (Some idx)
    then have tk: "take idx v1 = u" by (simp add: u_def Index_comma_Some)
    have "space_width v1 = 0" by (simp add: v1_def sw_TrimSpace)
    then have "space_width u = 0" unfolding tk [symmetric] by (rule sw_take0)
    then have "TrimSpace u = TrimRightSpace u" by (simp add: TrimSpace_def TrimLeftSpace_id)
    with Some tk have "v2 = TrimRightSpace u" by (simp add: v2_def)
    then show ?thesis by (simp add: s4 TrimSpace_TRS)
  qed
  have empty: "v1 = [] \<Longrightarrow> TrimSpace (strip4 u) = []"
    by (simp add: u_def beforeComma_def strip4_def TrimPrefix_def HasPrefix_def TrimSpace_Nil)
  show ?thesis
    unfolding code key v1_def [symmetric] u_def [symmetric] Let_def
    using empty by (simp add: strip4_def)
qed

lemma snapshot_normalizeVersion_one:
  assumes "\<not> stackedOperators (beforeComma (TrimSpace C))"
  shows "snapshot_normalizeVersion C = spec_normalizedConstraint C"
  unfolding snapshot_normalizeVersion_seq spec_normalizedConstraint_def strip_single [OF assms] ..

text \<open>
  Claim C8, as the specification states it: the normalized constraint is the constraint
  with one leading operator stripped.  The emitter strips \<open>>=\<close>, then \<open>>\<close>, then \<open>==\<close>,
  then \<open>=\<close>, one after the other, so it strips two operators from \<open>>==1.0\<close>.
\<close>

theorem snapshot_normalizeVersion_counterexample:
  "snapshot_normalizeVersion ''>==1.0'' = ''1.0''
   \<and> spec_normalizedConstraint ''>==1.0'' = ''=1.0''"
  by code_simp

text \<open>
  Claim C8, amended.  For every requirement constraint \<open>C\<close> the emitter writes \<open>C\<close> with
  the surrounding white space stripped, cut before the first comma, with the prefixes
  \<open>>=\<close>, \<open>>\<close>, \<open>==\<close>, \<open>=\<close> stripped in this order (each at most once), trimmed again, and
  \<open>0\<close> when nothing is left; \<open><\<close>, \<open><=\<close> and \<open>!=\<close> are not stripped.  When the constraint
  has no stacked operators this is the constraint with one leading operator stripped, and
  it is what the emitter writes on the requirement line.
\<close>

theorem snapshot_normalizeVersion_spec:
  "snapshot_normalizeVersion C =
     (let w = TrimSpace (TrimPrefix (TrimPrefix (TrimPrefix (TrimPrefix
                (beforeComma (TrimSpace C)) ''>='') ''>'') ''=='') ''='')
      in if w = [] then ''0'' else w)
   \<and> (\<not> stackedOperators (beforeComma (TrimSpace C))
        \<longrightarrow> snapshot_normalizeVersion C = spec_normalizedConstraint C)
   \<and> (\<not> stackedOperators (beforeComma (TrimSpace (mapIndex (Requirements d) m)))
        \<longrightarrow> emitRequirementsLine d m
            = ''      '' @ m @ '' '' @ spec_normalizedConstraint (mapIndex (Requirements d) m)
              @ [CHR 0x0A])
   \<and> snapshot_normalizeVersion ''< 2.0'' = ''< 2.0''
   \<and> snapshot_normalizeVersion ''<= 2.0'' = ''<= 2.0''
   \<and> snapshot_normalizeVersion ''!= 2.0'' = ''!= 2.0''"
proof -
  have "snapshot_normalizeVersion ''< 2.0'' = ''< 2.0''
      \<and> snapshot_normalizeVersion ''<= 2.0'' = ''<= 2.0''
      \<and> snapshot_normalizeVersion ''!= 2.0'' = ''!= 2.0''"
    by code_simp
  moreover have "\<not> stackedOperators (beforeComma (TrimSpace (mapIndex (Requirements d) m)))
        \<longrightarrow> emitRequirementsLine d m
            = ''      '' @ m @ '' '' @ spec_normalizedConstraint (mapIndex (Requirements d) m)
              @ [CHR 0x0A]"
    using snapshot_normalizeVersion_one [of "mapIndex (Requirements d) m"]
    by (simp add: emitRequirementsLine_def)
  moreover have "\<not> stackedOperators (beforeComma (TrimSpace C))
        \<longrightarrow> snapshot_normalizeVersion C = spec_normalizedConstraint C"
    using snapshot_normalizeVersion_one [of C] by blast
  ultimately show ?thesis using snapshot_normalizeVersion_seq [of C] by blast
qed

theorem snapshot_normalizeVersion_spec_witness:
  "\<not> stackedOperators (beforeComma (TrimSpace '' >= 1.0, < 2.0 ''))
   \<and> snapshot_normalizeVersion '' >= 1.0, < 2.0 '' = ''1.0''
   \<and> spec_normalizedConstraint '' >= 1.0, < 2.0 '' = ''1.0''
   \<and> emitRequirementsLine
        \<lparr>Name = ''Foo-1.0'', Pathname = ''A/AU/AUTHOR/Foo-1.0.tar.gz'', Provides = fmempty,
         Requirements = fmupd ''Bar'' '' >= 1.0, < 2.0 '' fmempty, Source = ''cpan''\<rparr> ''Bar''
       = ''      Bar 1.0'' @ [CHR 0x0A]"
proof -
  define d where "d = \<lparr>Name = ''Foo-1.0'', Pathname = ''A/AU/AUTHOR/Foo-1.0.tar.gz'',
     Provides = fmempty, Requirements = fmupd ''Bar'' '' >= 1.0, < 2.0 '' fmempty,
     Source = ''cpan''\<rparr>"
  have mi: "mapIndex (Requirements d) ''Bar'' = '' >= 1.0, < 2.0 ''"
    by (simp add: d_def mapIndex_def)
  have pre: "\<not> stackedOperators (beforeComma (TrimSpace '' >= 1.0, < 2.0 ''))"
    by code_simp
  have val: "spec_normalizedConstraint '' >= 1.0, < 2.0 '' = ''1.0''"
    by code_simp
  from snapshot_normalizeVersion_spec [of "'' >= 1.0, < 2.0 ''" d "''Bar''", THEN conjunct2]
    pre val mi
  show ?thesis unfolding d_def by simp
qed

section \<open>The downloader honours its cache\<close>

text \<open>
  Claim C9.  For every download job whose destination path already exists (\<open>os.Stat\<close>
  succeeds on it), \<open>downloadOne\<close> returns success and leaves the world as it was, whatever
  the operating system and the network are: no HTTP request is issued and the existing
  destination file is not modified.
\<close>

theorem downloadOne_cached:
  "osStat s (DestPath job) w \<Longrightarrow> downloadOne s job w = (None, w)"
  by (simp add: downloadOne_def)

theorem downloadOne_cached_witness:
  "osStat (memSys (\<lambda>url. Some (200, ''fresh'')))
       ''cache/A/AU/AUTHOR/Foo-1.0.tar.gz''
       \<lparr>files = fmupd ''cache/A/AU/AUTHOR/Foo-1.0.tar.gz'' ''cached'' fmempty, requested = []\<rparr>
   \<and> downloadOne (memSys (\<lambda>url. Some (200, ''fresh'')))
       \<lparr>URL = ''https://cpan.example/authors/id/A/AU/AUTHOR/Foo-1.0.tar.gz'',
        DestPath = ''cache/A/AU/AUTHOR/Foo-1.0.tar.gz'', jobSource = ''cpan''\<rparr>
       \<lparr>files = fmupd ''cache/A/AU/AUTHOR/Foo-1.0.tar.gz'' ''cached'' fmempty, requested = []\<rparr>
     = (None,
        \<lparr>files = fmupd ''cache/A/AU/AUTHOR/Foo-1.0.tar.gz'' ''cached'' fmempty,
         requested = []\<rparr>)"
proof -
  have pre: "osStat (memSys (\<lambda>url. Some (200, ''fresh'')))
       ''cache/A/AU/AUTHOR/Foo-1.0.tar.gz''
       \<lparr>files = fmupd ''cache/A/AU/AUTHOR/Foo-1.0.tar.gz'' ''cached'' fmempty, requested = []\<rparr>"
    by (simp add: memSys_def)
  from downloadOne_cached [of "memSys (\<lambda>url. Some (200, ''fresh''))"
      "\<lparr>URL = ''https://cpan.example/authors/id/A/AU/AUTHOR/Foo-1.0.tar.gz'',
        DestPath = ''cache/A/AU/AUTHOR/Foo-1.0.tar.gz'', jobSource = ''cpan''\<rparr>"
      "\<lparr>files = fmupd ''cache/A/AU/AUTHOR/Foo-1.0.tar.gz'' ''cached'' fmempty, requested = []\<rparr>"]
    pre
  show ?thesis by simp
qed

section \<open>Flattening the requirements\<close>

lemma mapIndex_fmupd: "mapIndex (fmupd k v m) k' = (if k' = k then v else mapIndex m k')"
  by (simp add: mapIndex_def)

lemma fold_setIfEmpty:
  "fmlookup (foldl (\<lambda>r modname. case fmlookup m modname of
                Some ver \<Rightarrow> setIfEmpty modname (f ver) r | None \<Rightarrow> r) reqs ks) k
   = (if k \<in> set ks
      then (case fmlookup m k of
              None \<Rightarrow> fmlookup reqs k
            | Some v \<Rightarrow> if mapIndex reqs k = [] then Some (f v) else fmlookup reqs k)
      else fmlookup reqs k)"
proof (induction ks arbitrary: reqs)
  case Nil
  show ?case by simp
next
  case (Cons a ks)
  show ?case
    by (simp add: Cons.IH setIfEmpty_def mapIndex_fmupd split: option.splits)
qed

lemma rangeInto_lookup:
  assumes "set (ord (fmdom m)) = fset (fmdom m)"
  shows "fmlookup (rangeInto ord fmtG m reqs) k
   = (case fmlookup m k of
        None \<Rightarrow> fmlookup reqs k
      | Some v \<Rightarrow> if mapIndex reqs k = [] then Some (versionString fmtG v) else fmlookup reqs k)"
  unfolding rangeInto_def fold_setIfEmpty assms
  by (auto split: option.splits simp: fmdom_notI fmdomI)


lemma flattenPhase_fold:
  "flattenPhase ord fmtG phaseReqs reqs =
     foldl (\<lambda>r m. rangeInto ord fmtG m r) reqs
       (concat (map (\<lambda>depType.
                 case fmlookup phaseReqs depType of
                   Some (DMap reqMap) \<Rightarrow> [reqMap]
                 | _ \<Rightarrow> [])
               [''requires'', ''recommends'', ''suggests'']))"
  by (simp add: flattenPhase_def depTypes_def split: option.splits jdeps.splits)

lemma flattenModern_fold:
  "flattenModern ord fmtG meta reqs =
     foldl (\<lambda>r m. rangeInto ord fmtG m r) reqs (modernSources meta)"
  unfolding flattenModern_def phases_def modernSources_def
  by (simp add: flattenPhase_fold split: option.splits)

lemma flattenPrereqs_fold:
  "metaRequirements (flattenPrereqs ord fmtG meta) =
     foldl (\<lambda>r m. rangeInto ord fmtG m r) fmempty
       (modernSources meta
        @ [metaRequires meta, metaBuildRequires meta, metaConfigureRequires meta,
           metaShare meta, metaSystem meta])"
  by (simp add: flattenPrereqs_def Let_def flattenModern_fold)

lemma valuesOf_Nil: "valuesOf k [] = []"
  by (simp add: valuesOf_def map_filter_simps)

lemma valuesOf_Cons:
  "valuesOf k (m # ms) = (case fmlookup m k of None \<Rightarrow> valuesOf k ms | Some v \<Rightarrow> v # valuesOf k ms)"
  by (simp add: valuesOf_def map_filter_simps split: option.splits)

lemma firstNonEmpty_Cons:
  "firstNonEmpty (v # vs) = (if v \<noteq> [] then v else firstNonEmpty vs)"
  by (simp add: firstNonEmpty_def)

lemma fold_rangeInto_lookup:
  assumes "\<And>S. set (ord S) = fset S"
  shows "fmlookup (foldl (\<lambda>r m. rangeInto ord fmtG m r) acc ms) k
   = (if mapIndex acc k \<noteq> [] \<or> valuesOf k (map (fmmap (versionString fmtG)) ms) = []
      then fmlookup acc k
      else Some (firstNonEmpty (valuesOf k (map (fmmap (versionString fmtG)) ms))))"
proof (induction ms arbitrary: acc)
  case Nil
  show ?case by (simp add: valuesOf_Nil)
next
  case (Cons m ms)
  have r: "fmlookup (rangeInto ord fmtG m acc) k
   = (case fmlookup m k of
        None \<Rightarrow> fmlookup acc k
      | Some v \<Rightarrow> if mapIndex acc k = [] then Some (versionString fmtG v) else fmlookup acc k)"
    by (rule rangeInto_lookup) (rule assms)
  have mi: "mapIndex (rangeInto ord fmtG m acc) k
   = (case fmlookup m k of
        None \<Rightarrow> mapIndex acc k
      | Some v \<Rightarrow> if mapIndex acc k = [] then versionString fmtG v else mapIndex acc k)"
    by (simp add: mapIndex_def r split: option.splits)
  show ?case
    by (simp add: Cons.IH mi r valuesOf_Cons firstNonEmpty_Cons firstNonEmpty_def valuesOf_Nil
        split: option.splits)
       (auto simp: mapIndex_def firstNonEmpty_def split: option.splits)
qed


lemma unionFirstWins_fold_lookup:
  "fmlookup (foldl (\<lambda>acc m. fmadd m acc) acc srcs) k
   = (case fmlookup acc k of
        Some v \<Rightarrow> Some v
      | None \<Rightarrow> (case valuesOf k srcs of [] \<Rightarrow> None | v # _ \<Rightarrow> Some v))"
proof (induction srcs arbitrary: acc)
  case Nil
  show ?case by (simp add: valuesOf_Nil split: option.splits)
next
  case (Cons m ms)
  show ?case
    by (auto simp: Cons.IH valuesOf_Cons fmdom_notI fmdomI split: option.splits list.splits
        dest: fmdom_notD)
qed

lemma unionFirstWins_lookup:
  "fmlookup (unionFirstWins srcs) k = (case valuesOf k srcs of [] \<Rightarrow> None | v # _ \<Rightarrow> Some v)"
  by (simp add: unionFirstWins_def unionFirstWins_fold_lookup)

lemma valuesOf_set:
  "v \<in> set (valuesOf k srcs) \<Longrightarrow> \<exists>m \<in> set srcs. fmlookup m k = Some v"
  by (induction srcs) (auto simp: valuesOf_Nil valuesOf_Cons split: option.splits)

lemma flattenPrereqs_lookup:
  assumes "\<And>S. set (ord S) = fset S"
  shows "fmlookup (metaRequirements (flattenPrereqs ord fmtG meta)) k
   = (if valuesOf k (sources fmtG meta) = [] then None
      else Some (firstNonEmpty (valuesOf k (sources fmtG meta))))"
  unfolding flattenPrereqs_fold sources_def
  by (subst fold_rangeInto_lookup [OF assms]) (simp add: mapIndex_def)

lemma flattenPrereqs_union:
  assumes "\<And>S. set (ord S) = fset S"
    and "\<forall>m \<in> set (sources fmtG meta). [] |\<notin>| fmran m"
  shows "metaRequirements (flattenPrereqs ord fmtG meta) = unionFirstWins (sources fmtG meta)"
proof (rule fmap_ext)
  fix k
  let ?vs = "valuesOf k (sources fmtG meta)"
  have ne: "v \<noteq> []" if "v \<in> set ?vs" for v
  proof -
    from that obtain m where "m \<in> set (sources fmtG meta)" "fmlookup m k = Some v"
      using valuesOf_set by blast
    with assms(2) show ?thesis by (auto dest: fmranI)
  qed
  have "firstNonEmpty ?vs = hd ?vs" if "?vs \<noteq> []"
    using that ne by (cases ?vs) (auto simp: firstNonEmpty_def)
  then show "fmlookup (metaRequirements (flattenPrereqs ord fmtG meta)) k
      = fmlookup (unionFirstWins (sources fmtG meta)) k"
    by (simp add: flattenPrereqs_lookup [OF assms(1)] unionFirstWins_lookup split: list.splits)
qed

text \<open>
  Claim C5, as the specification states it: the flattened requirements are the union of
  the sources with first writer wins, and a key written by an earlier source is never
  overwritten by a later one.  The guard of \<open>flattenPrereqs\<close> is
  \<open>meta.Requirements[mod] == ""\<close>, which is also true of a key that an earlier source
  wrote with the empty version string: here \<open>prereqs.runtime.requires\<close> gives \<open>Bar\<close> the
  version \<open>""\<close> and the legacy \<open>requires\<close> overwrites it with \<open>2.0\<close>.
\<close>

theorem flattenPrereqs_counterexample:
  "metaRequirements (flattenPrereqs sorted_list_of_fset (\<lambda>u :: unit. ''0'')
      \<lparr>metaName = ''Foo'', metaVersion = ''1.0'', metaProvides = fmempty,
       metaPrereqs =
         fmupd ''runtime''
           (fmupd ''requires'' (DMap (fmupd ''Bar'' (VString []) fmempty)) fmempty) fmempty,
       metaRequirements = fmempty, metaShare = fmempty, metaSystem = fmempty,
       metaRequires = fmupd ''Bar'' (VString ''2.0'') fmempty,
       metaBuildRequires = fmempty, metaConfigureRequires = fmempty\<rparr>)
     = fmupd ''Bar'' ''2.0'' fmempty
   \<and> unionFirstWins (sources (\<lambda>u :: unit. ''0'')
      \<lparr>metaName = ''Foo'', metaVersion = ''1.0'', metaProvides = fmempty,
       metaPrereqs =
         fmupd ''runtime''
           (fmupd ''requires'' (DMap (fmupd ''Bar'' (VString []) fmempty)) fmempty) fmempty,
       metaRequirements = fmempty, metaShare = fmempty, metaSystem = fmempty,
       metaRequires = fmupd ''Bar'' (VString ''2.0'') fmempty,
       metaBuildRequires = fmempty, metaConfigureRequires = fmempty\<rparr>)
     = fmupd ''Bar'' [] fmempty"
  by code_simp

text \<open>
  Claim C5, amended.  Go visits every key of a map when it ranges over it, in an order
  \<open>ord\<close> of its choice.  For every such order and every parsed metadata record, a module
  is a key of the flattened requirements exactly when one of the sources (the
  modern-schema prereqs over the phases runtime, configure, build and the dependency types
  requires, recommends, suggests; then the legacy requires, build_requires,
  configure_requires; then x_alienfile.requires.share and x_alienfile.requires.system) has
  it, and its value is the first version string among these sources, in this order, that
  is not empty (the empty string when all are empty).  So an earlier source wins unless
  it gave the empty version string; when no source gives an empty version string, the
  flattened requirements are the union of the sources with first writer wins.
\<close>

theorem flattenPrereqs_first_nonempty:
  "(\<forall>S. set (ord S) = fset S) \<longrightarrow>
     fmlookup (metaRequirements (flattenPrereqs ord fmtG meta)) M
       = (if valuesOf M (sources fmtG meta) = [] then None
          else Some (firstNonEmpty (valuesOf M (sources fmtG meta))))
     \<and> ((\<forall>m \<in> set (sources fmtG meta). [] |\<notin>| fmran m)
          \<longrightarrow> metaRequirements (flattenPrereqs ord fmtG meta)
              = unionFirstWins (sources fmtG meta))"
proof
  assume o: "\<forall>S. set (ord S) = fset S"
  then have o': "\<And>S. set (ord S) = fset S" by blast
  have "fmlookup (metaRequirements (flattenPrereqs ord fmtG meta)) M
       = (if valuesOf M (sources fmtG meta) = [] then None
          else Some (firstNonEmpty (valuesOf M (sources fmtG meta))))"
    by (rule flattenPrereqs_lookup) (rule o')
  moreover have "(\<forall>m \<in> set (sources fmtG meta). [] |\<notin>| fmran m)
          \<longrightarrow> metaRequirements (flattenPrereqs ord fmtG meta)
              = unionFirstWins (sources fmtG meta)"
    using flattenPrereqs_union [of ord fmtG meta] o' by blast
  ultimately show "fmlookup (metaRequirements (flattenPrereqs ord fmtG meta)) M
       = (if valuesOf M (sources fmtG meta) = [] then None
          else Some (firstNonEmpty (valuesOf M (sources fmtG meta))))
     \<and> ((\<forall>m \<in> set (sources fmtG meta). [] |\<notin>| fmran m)
          \<longrightarrow> metaRequirements (flattenPrereqs ord fmtG meta)
              = unionFirstWins (sources fmtG meta))"
    by blast
qed

theorem flattenPrereqs_first_nonempty_witness:
  "fmlookup (metaRequirements (flattenPrereqs sorted_list_of_fset (\<lambda>u :: unit. ''0'')
      \<lparr>metaName = ''Foo'', metaVersion = ''1.0'', metaProvides = fmempty,
       metaPrereqs =
         fmupd ''runtime''
           (fmupd ''requires'' (DMap (fmupd ''Bar'' (VString ''1.0'') fmempty)) fmempty)
           (fmupd ''build''
             (fmupd ''requires''
               (DMap (fmupd ''Bar'' (VString ''3.0'') (fmupd ''Quux'' (VInt 2) fmempty)))
               fmempty)
             fmempty),
       metaRequirements = fmempty, metaShare = fmempty, metaSystem = fmempty,
       metaRequires = fmupd ''Bar'' (VString ''2.0'') (fmupd ''Baz'' (VString ''0.5'') fmempty),
       metaBuildRequires = fmempty, metaConfigureRequires = fmempty\<rparr>)) ''Bar''
     = Some ''1.0''
   \<and> metaRequirements (flattenPrereqs sorted_list_of_fset (\<lambda>u :: unit. ''0'')
      \<lparr>metaName = ''Foo'', metaVersion = ''1.0'', metaProvides = fmempty,
       metaPrereqs =
         fmupd ''runtime''
           (fmupd ''requires'' (DMap (fmupd ''Bar'' (VString ''1.0'') fmempty)) fmempty)
           (fmupd ''build''
             (fmupd ''requires''
               (DMap (fmupd ''Bar'' (VString ''3.0'') (fmupd ''Quux'' (VInt 2) fmempty)))
               fmempty)
             fmempty),
       metaRequirements = fmempty, metaShare = fmempty, metaSystem = fmempty,
       metaRequires = fmupd ''Bar'' (VString ''2.0'') (fmupd ''Baz'' (VString ''0.5'') fmempty),
       metaBuildRequires = fmempty, metaConfigureRequires = fmempty\<rparr>)
     = fmupd ''Bar'' ''1.0'' (fmupd ''Quux'' ''2'' (fmupd ''Baz'' ''0.5'' fmempty))"
proof -
  define meta :: "unit MetaFile" where "meta =
      \<lparr>metaName = ''Foo'', metaVersion = ''1.0'', metaProvides = fmempty,
       metaPrereqs =
         fmupd ''runtime''
           (fmupd ''requires'' (DMap (fmupd ''Bar'' (VString ''1.0'') fmempty)) fmempty)
           (fmupd ''build''
             (fmupd ''requires''
               (DMap (fmupd ''Bar'' (VString ''3.0'') (fmupd ''Quux'' (VInt 2) fmempty)))
               fmempty)
             fmempty),
       metaRequirements = fmempty, metaShare = fmempty, metaSystem = fmempty,
       metaRequires = fmupd ''Bar'' (VString ''2.0'') (fmupd ''Baz'' (VString ''0.5'') fmempty),
       metaBuildRequires = fmempty, metaConfigureRequires = fmempty\<rparr>"
  have ord: "\<forall>S :: string fset. set (sorted_list_of_fset S) = fset S" by simp
  have ne: "\<forall>m \<in> set (sources (\<lambda>u :: unit. ''0'') meta). [] |\<notin>| fmran m"
    unfolding meta_def by code_simp
  have vs: "valuesOf ''Bar'' (sources (\<lambda>u :: unit. ''0'') meta) = [''1.0'', ''3.0'', ''2.0'']"
    unfolding meta_def by code_simp
  have u: "unionFirstWins (sources (\<lambda>u :: unit. ''0'') meta)
      = fmupd ''Bar'' ''1.0'' (fmupd ''Quux'' ''2'' (fmupd ''Baz'' ''0.5'' fmempty))"
    unfolding meta_def by code_simp
  from flattenPrereqs_first_nonempty [of sorted_list_of_fset "\<lambda>u :: unit. ''0''" meta "''Bar''"]
    ord ne vs u
  show ?thesis unfolding meta_def by (simp add: firstNonEmpty_def)
qed

section \<open>The resolver\<close>

lemma forDeps_preserves:
  assumes step: "\<And>m v st e st'. P st \<Longrightarrow> f m v st = Some (e, st') \<Longrightarrow> P st'"
  shows "P st \<Longrightarrow> forDeps f deps st = Some (e, st') \<Longrightarrow> P st'"
proof (induction deps arbitrary: st)
  case Nil
  then show ?case by simp
next
  case (Cons a deps)
  obtain m v where a: "a = (m, v)" by (cases a)
  show ?case
  proof (cases "f m v st")
    case None
    with Cons.prems a show ?thesis by simp
  next
    case (Some res)
    obtain e1 st1 where res: "res = (e1, st1)" by (cases res)
    from step [OF Cons.prems(1)] Some res have p1: "P st1" by simp
    show ?thesis
    proof (cases e1)
      case None
      with Cons.prems(2) a Some res have "forDeps f deps st1 = Some (e, st')" by simp
      with Cons.IH p1 show ?thesis by blast
    next
      case (Some err)
      with Cons.prems(2) a \<open>f m v st = Some res\<close> res have "st' = st1" by simp
      with p1 show ?thesis by simp
    qed
  qed
qed

lemma createDist_provides: "modname |\<in>| fmdom (Provides (createDist modname pathname source meta))"
  by (simp add: createDist_def Let_def)

lemma fetchDist_provides:
  "fetchDist sv modname version w = (Inr d, w') \<Longrightarrow> modname |\<in>| fmdom (Provides d)"
  by (auto simp: fetchDist_def Let_def createDist_provides
      split: prod.splits sum.splits list.splits option.splits if_splits)

lemma markResolved_lookup:
  "fmlookup (markResolved modname d res) k
   = (if k = modname then Some d
      else case fmlookup res k of Some d' \<Rightarrow> Some d'
           | None \<Rightarrow> if k |\<in>| fmdom (Provides d) then Some d else None)"
  by (auto simp: markResolved_def fmdom_notI fmdomI split: option.splits dest: fmdom_notD)



lemma providesBound_markResolved:
  "modname |\<in>| fmdom (Provides d) \<Longrightarrow> providesBound res \<Longrightarrow> providesBound (markResolved modname d res)"
  by (auto simp: providesBound_def fmpred_iff markResolved_lookup split: if_splits option.splits)

lemma resolveOne_providesBound:
  "providesBound (resolved r) \<Longrightarrow> resolveOne fuel sv modname version r = Some (e, r')
     \<Longrightarrow> providesBound (resolved r')"
proof (induction fuel arbitrary: modname version r e r')
  case 0
  then show ?case by simp
next
  case (Suc fuel)
  show ?case
  proof (cases "isCore modname
      \<or> (case fmlookup (resolved r) modname of
            Some d \<Rightarrow> satisfies (mapIndex (Provides d) modname) version | None \<Rightarrow> False)
      \<or> modname |\<in>| resolving r")
    case True
    with Suc.prems have "r' = r" by (auto split: if_splits)
    with Suc.prems(1) show ?thesis by simp
  next
    case False
    obtain res w where fd: "fetchDist sv modname version (world r) = (res, w)"
      by (cases "fetchDist sv modname version (world r)")
    show ?thesis
    proof (cases res)
      case (Inl err)
      with False fd Suc.prems(2) have "resolved r' = resolved r" by auto
      with Suc.prems(1) show ?thesis by simp
    next
      case (Inr d)
      define r1 where "r1 = \<lparr>resolved = markResolved modname d (resolved r),
                      resolving = finsert modname (resolving r), world = w\<rparr>"
      from fd Inr have "modname |\<in>| fmdom (Provides d)" by (simp add: fetchDist_provides)
      with Suc.prems(1) have p1: "providesBound (resolved r1)"
        by (simp add: r1_def providesBound_markResolved)
      from False fd Inr Suc.prems(2) obtain r2 where
        fdeps: "forDeps (resolveOne fuel sv)
                  (depsInOrder (rangeOrder sv w (fmdom (Requirements d))) (Requirements d)) r1
                = Some (e, r2)"
        and r': "r' = r2\<lparr>resolving := resolving r2 |-| {|modname|}\<rparr>"
        by (auto simp: r1_def split: option.splits)
      have "providesBound (resolved r2)"
        using p1 fdeps
        by (rule forDeps_preserves [where P = "\<lambda>st. providesBound (resolved st)", rotated 1])
           (rule Suc.IH)
      with r' show ?thesis by simp
    qed
  qed
qed


lemma providesNonCore_markResolved:
  "modname |\<in>| fmdom (Provides d) \<Longrightarrow> \<not> isCore modname \<Longrightarrow> providesNonCore res
     \<Longrightarrow> providesNonCore (markResolved modname d res)"
  by (auto simp: providesNonCore_def fmpred_iff markResolved_lookup split: if_splits option.splits)

lemma resolveOne_providesNonCore:
  "providesNonCore (resolved r) \<Longrightarrow> resolveOne fuel sv modname version r = Some (e, r')
     \<Longrightarrow> providesNonCore (resolved r')"
proof (induction fuel arbitrary: modname version r e r')
  case 0
  then show ?case by simp
next
  case (Suc fuel)
  show ?case
  proof (cases "isCore modname
      \<or> (case fmlookup (resolved r) modname of
            Some d \<Rightarrow> satisfies (mapIndex (Provides d) modname) version | None \<Rightarrow> False)
      \<or> modname |\<in>| resolving r")
    case True
    with Suc.prems have "r' = r" by (auto split: if_splits)
    with Suc.prems(1) show ?thesis by simp
  next
    case False
    obtain res w where fd: "fetchDist sv modname version (world r) = (res, w)"
      by (cases "fetchDist sv modname version (world r)")
    show ?thesis
    proof (cases res)
      case (Inl err)
      with False fd Suc.prems(2) have "resolved r' = resolved r" by auto
      with Suc.prems(1) show ?thesis by simp
    next
      case (Inr d)
      define r1 where "r1 = \<lparr>resolved = markResolved modname d (resolved r),
                      resolving = finsert modname (resolving r), world = w\<rparr>"
      from fd Inr have "modname |\<in>| fmdom (Provides d)" by (simp add: fetchDist_provides)
      with Suc.prems(1) False have p1: "providesNonCore (resolved r1)"
        by (simp add: r1_def providesNonCore_markResolved)
      from False fd Inr Suc.prems(2) obtain r2 where
        fdeps: "forDeps (resolveOne fuel sv)
                  (depsInOrder (rangeOrder sv w (fmdom (Requirements d))) (Requirements d)) r1
                = Some (e, r2)"
        and r': "r' = r2\<lparr>resolving := resolving r2 |-| {|modname|}\<rparr>"
        by (auto simp: r1_def split: option.splits)
      have "providesNonCore (resolved r2)"
        using p1 fdeps
        by (rule forDeps_preserves [where P = "\<lambda>st. providesNonCore (resolved st)", rotated 1])
           (rule Suc.IH)
      with r' show ?thesis by simp
    qed
  qed
qed



lemma forDeps_all_core:
  "\<forall>dep \<in> set deps. isCore (fst dep)
     \<Longrightarrow> forDeps (resolveOne (Suc fuel) sv) deps r = Some (None, r)"
  by (induction deps) auto

lemma map_filter_SomeD: "y \<in> set (List.map_filter f xs) \<Longrightarrow> \<exists>x. f x = Some y"
  by (induction xs) (auto simp: map_filter_simps split: option.splits)

lemma map_filter_fmempty: "List.map_filter (fmlookup fmempty) ks = []"
  by (induction ks) (simp_all add: map_filter_simps)

lemma Resolve_all_core:
  assumes "\<forall>req \<in> set reqs. isCore (reqModule req)"
  shows "Resolve (Suc fuel) sv reqs (NewResolver w) = Some (Inr [], NewResolver w)"
proof -
  have "forDeps (resolveOne (Suc fuel) sv) (map (\<lambda>req. (reqModule req, reqVersion req)) reqs)
          (NewResolver w) = Some (None, NewResolver w)"
    using assms by (intro forDeps_all_core) auto
  then show ?thesis
    by (simp add: Resolve_def) (simp add: NewResolver_def map_filter_fmempty)
qed

lemma Resolve_providesNonCore:
  assumes "Resolve fuel sv reqs r = Some (Inr ds, r')" and "providesNonCore (resolved r)"
  shows "providesNonCore (resolved r')
         \<and> (\<forall>d \<in> set ds. \<exists>k. k |\<in>| fmdom (Provides d) \<and> \<not> isCore k)"
proof -
  from assms(1) have
    fdeps: "forDeps (resolveOne fuel sv) (map (\<lambda>req. (reqModule req, reqVersion req)) reqs) r
            = Some (None, r')"
    and ds: "ds = List.map_filter (fmlookup (resolved r'))
                    (rangeOrder sv (world r') (fmdom (resolved r')))"
    by (auto simp: Resolve_def split: option.splits prod.splits)
  have inv: "providesNonCore (resolved r')"
    using assms(2) fdeps
    by (rule forDeps_preserves [where P = "\<lambda>st. providesNonCore (resolved st)", rotated 1])
       (rule resolveOne_providesNonCore)
  have "\<exists>k. k |\<in>| fmdom (Provides d) \<and> \<not> isCore k" if "d \<in> set ds" for d
  proof -
    from that ds obtain m where "fmlookup (resolved r') m = Some d"
      by (auto dest: map_filter_SomeD)
    with inv show ?thesis by (auto simp: providesNonCore_def fmpred_iff)
  qed
  with inv show ?thesis by blast
qed

text \<open>
  Claim C10.  The resolver starts with an empty map, and every call of \<open>resolveOne\<close>
  that returns keeps the property that each module bound in \<open>resolved\<close> is a key of the
  \<open>Provides\<close> of its record.  The record created for a module always has the module among
  its \<open>Provides\<close>, with the version that the metadata gives the module or else with the
  version of the metadata itself, so a later lookup of the module reads an entry that is
  present.
\<close>

theorem resolveOne_provides_bound:
  "providesBound (resolved (NewResolver w0))
   \<and> (providesBound (resolved r) \<and> resolveOne fuel sv modname version r = Some (e, r')
        \<longrightarrow> providesBound (resolved r'))
   \<and> (fetchDist sv modname version w = (Inr d, w') \<longrightarrow> modname |\<in>| fmdom (Provides d))
   \<and> fmlookup (Provides (createDist modname pathname source meta)) modname
       = Some (case fmlookup (metaProvides meta) modname of
                 Some entry \<Rightarrow> providesVersion entry
               | None \<Rightarrow> metaVersion meta)"
proof -
  have "providesBound (resolved (NewResolver w0))"
    by (simp add: NewResolver_def providesBound_def)
  moreover have "providesBound (resolved r) \<and> resolveOne fuel sv modname version r = Some (e, r')
        \<longrightarrow> providesBound (resolved r')"
    using resolveOne_providesBound [of r fuel sv modname version e r'] by blast
  moreover have "fetchDist sv modname version w = (Inr d, w') \<longrightarrow> modname |\<in>| fmdom (Provides d)"
    using fetchDist_provides [of sv modname version w d w'] by blast
  moreover have "fmlookup (Provides (createDist modname pathname source meta)) modname
       = Some (case fmlookup (metaProvides meta) modname of
                 Some entry \<Rightarrow> providesVersion entry
               | None \<Rightarrow> metaVersion meta)"
    by (auto simp: createDist_def Let_def fmdom_notI split: option.splits dest: fmdom_notD)
  ultimately show ?thesis by blast
qed

theorem resolveOne_provides_bound_witness:
  "resolveOne 3 smallIndex ''Foo'' ''>= 2.0'' (NewResolver ())
     = Some (None,
         \<lparr>resolved = fmupd ''Foo'' foo2
            (fmupd ''Test2::API'' testSimple (fmupd ''Test::More'' testSimple fmempty)),
          resolving = {||}, world = ()\<rparr>)
   \<and> providesBound (fmupd ''Foo'' foo2
        (fmupd ''Test2::API'' testSimple (fmupd ''Test::More'' testSimple fmempty)))
   \<and> fetchDist smallIndex ''Foo'' ''>= 2.0'' () = (Inr foo2, ())
   \<and> ''Foo'' |\<in>| fmdom (Provides foo2)"
proof -
  have run: "resolveOne 3 smallIndex ''Foo'' ''>= 2.0'' (NewResolver ())
     = Some (None,
         \<lparr>resolved = fmupd ''Foo'' foo2
            (fmupd ''Test2::API'' testSimple (fmupd ''Test::More'' testSimple fmempty)),
          resolving = {||}, world = ()\<rparr>)"
    by code_simp
  have fd: "fetchDist smallIndex ''Foo'' ''>= 2.0'' () = (Inr foo2, ())"
    by code_simp
  from resolveOne_provides_bound [of "()" "NewResolver ()" 3 smallIndex "''Foo''" "''>= 2.0''"
      None "\<lparr>resolved = fmupd ''Foo'' foo2
            (fmupd ''Test2::API'' testSimple (fmupd ''Test::More'' testSimple fmempty)),
          resolving = {||}, world = ()\<rparr>" "()" foo2 "()"
      "''A/AU/AUTHOR/Foo-2.0.tar.gz''" "''cpan''" fooMeta]
    run fd
  show ?thesis by simp
qed

text \<open>
  Claim C2, as the specification states it: after \<open>Resolve\<close> no entry of the resolved map
  has a core module as its key, and no record bound to a core module appears in the
  output.  A record is bound to every module it provides that is not bound yet, core or
  not: resolving \<open>Test2::API\<close> binds its distribution \<open>Test-Simple\<close> to the core module
  \<open>Test::More\<close> as well, and the record appears in the output once for each of its keys.
\<close>

theorem Resolve_core_counterexample:
  "isCore ''Test::More''
   \<and> Resolve 3 smallIndex [\<lparr>reqModule = ''Test2::API'', reqVersion = ''0''\<rparr>] (NewResolver ())
     = Some (Inr [testSimple, testSimple],
         \<lparr>resolved = fmupd ''Test2::API'' testSimple (fmupd ''Test::More'' testSimple fmempty),
          resolving = {||}, world = ()\<rparr>)
   \<and> fmlookup (fmupd ''Test2::API'' testSimple (fmupd ''Test::More'' testSimple fmempty))
        ''Test::More'' = Some testSimple"
  by code_simp

text \<open>
  Claim C2, amended.  For every module in the static core set, a resolution of the module
  succeeds immediately with no record created and the resolver unchanged, and resolving a
  list of core modules gives no record at all.  No record is created for a core module:
  every record bound in the resolved map, and so every record of the output of \<open>Resolve\<close>,
  provides a module that is not a core module (the module it was resolved for).  A core
  module is a key of the resolved map only when a distribution resolved for another module
  provides it.
\<close>

theorem resolveOne_core:
  "(isCore modname \<longrightarrow> resolveOne (Suc fuel) sv modname version r = Some (None, r))
   \<and> ((\<forall>req \<in> set reqs. isCore (reqModule req))
        \<longrightarrow> Resolve (Suc fuel) sv reqs (NewResolver w) = Some (Inr [], NewResolver w))
   \<and> (providesNonCore (resolved r) \<and> resolveOne fuel sv modname version r = Some (e, r')
        \<longrightarrow> providesNonCore (resolved r'))
   \<and> (Resolve fuel sv reqs (NewResolver w) = Some (Inr ds, r'')
        \<longrightarrow> providesNonCore (resolved r'')
            \<and> (\<forall>d \<in> set ds. \<exists>k. k |\<in>| fmdom (Provides d) \<and> \<not> isCore k))"
proof -
  have "isCore modname \<longrightarrow> resolveOne (Suc fuel) sv modname version r = Some (None, r)"
    by simp
  moreover have "(\<forall>req \<in> set reqs. isCore (reqModule req))
        \<longrightarrow> Resolve (Suc fuel) sv reqs (NewResolver w) = Some (Inr [], NewResolver w)"
    using Resolve_all_core [of reqs fuel sv w] by blast
  moreover have "providesNonCore (resolved r) \<and> resolveOne fuel sv modname version r = Some (e, r')
        \<longrightarrow> providesNonCore (resolved r')"
    using resolveOne_providesNonCore [of r fuel sv modname version e r'] by blast
  moreover have "Resolve fuel sv reqs (NewResolver w) = Some (Inr ds, r'')
        \<longrightarrow> providesNonCore (resolved r'')
            \<and> (\<forall>d \<in> set ds. \<exists>k. k |\<in>| fmdom (Provides d) \<and> \<not> isCore k)"
  proof
    assume a: "Resolve fuel sv reqs (NewResolver w) = Some (Inr ds, r'')"
    have "providesNonCore (resolved (NewResolver w))"
      by (simp add: NewResolver_def providesNonCore_def)
    with a show "providesNonCore (resolved r'')
            \<and> (\<forall>d \<in> set ds. \<exists>k. k |\<in>| fmdom (Provides d) \<and> \<not> isCore k)"
      by (rule Resolve_providesNonCore)
  qed
  ultimately show ?thesis by blast
qed

theorem resolveOne_core_witness:
  "isCore ''strict''
   \<and> resolveOne 1 smallIndex ''strict'' ''0'' (NewResolver ()) = Some (None, NewResolver ())
   \<and> Resolve 1 smallIndex [\<lparr>reqModule = ''strict'', reqVersion = ''0''\<rparr>] (NewResolver ())
       = Some (Inr [], NewResolver ())
   \<and> Resolve 3 smallIndex [\<lparr>reqModule = ''Test2::API'', reqVersion = ''0''\<rparr>] (NewResolver ())
       = Some (Inr [testSimple, testSimple],
           \<lparr>resolved = fmupd ''Test2::API'' testSimple (fmupd ''Test::More'' testSimple fmempty),
            resolving = {||}, world = ()\<rparr>)
   \<and> providesNonCore (fmupd ''Test2::API'' testSimple (fmupd ''Test::More'' testSimple fmempty))
   \<and> ''Test2::API'' |\<in>| fmdom (Provides testSimple) \<and> \<not> isCore ''Test2::API''"
proof -
  have core: "isCore ''strict''" by code_simp
  have allcore: "\<forall>req \<in> set [\<lparr>reqModule = ''strict'', reqVersion = ''0''\<rparr>]. isCore (reqModule req)"
    using core by simp
  have run: "Resolve 3 smallIndex [\<lparr>reqModule = ''Test2::API'', reqVersion = ''0''\<rparr>]
       (NewResolver ())
       = Some (Inr [testSimple, testSimple],
           \<lparr>resolved = fmupd ''Test2::API'' testSimple (fmupd ''Test::More'' testSimple fmempty),
            resolving = {||}, world = ()\<rparr>)"
    by code_simp
  have nc: "''Test2::API'' |\<in>| fmdom (Provides testSimple) \<and> \<not> isCore ''Test2::API''"
    by code_simp
  from resolveOne_core [of "''strict''" 0 smallIndex "''0''" "NewResolver ()"
      "[\<lparr>reqModule = ''strict'', reqVersion = ''0''\<rparr>]" "()"]
    core allcore
  have a: "resolveOne 1 smallIndex ''strict'' ''0'' (NewResolver ()) = Some (None, NewResolver ())"
    and b: "Resolve 1 smallIndex [\<lparr>reqModule = ''strict'', reqVersion = ''0''\<rparr>] (NewResolver ())
       = Some (Inr [], NewResolver ())"
    by simp_all
  from resolveOne_core [of "''strict''" 3 smallIndex "''0''" "NewResolver ()"
      "[\<lparr>reqModule = ''Test2::API'', reqVersion = ''0''\<rparr>]" "()"
      None "NewResolver ()" "[testSimple, testSimple]"
      "\<lparr>resolved = fmupd ''Test2::API'' testSimple (fmupd ''Test::More'' testSimple fmempty),
        resolving = {||}, world = ()\<rparr>"]
    run
  have c: "providesNonCore
      (fmupd ''Test2::API'' testSimple (fmupd ''Test::More'' testSimple fmempty))"
    by simp
  from core a b run c nc show ?thesis by blast
qed




section \<open>The configure script of the extractor\<close>











section \<open>The round trip of a snapshot\<close>

lemma unlines_append: "unlines (a @ b) = unlines a @ unlines b"
  by (simp add: unlines_def)

lemma unlines_Cons: "unlines (l # ls) = l @ CHR 0x0A # unlines ls"
  by (simp add: unlines_def)

lemma unlines_Nil: "unlines [] = []"
  by (simp add: unlines_def)

lemma unlines_concat: "unlines (concat xss) = concat (map unlines xss)"
  by (induction xss) (simp_all add: unlines_Nil unlines_append)

lemma emitProvidesLine_eq: "emitProvidesLine d m = providesLine d m @ [CHR 0x0A]"
  by (simp add: emitProvidesLine_def providesLine_def moduleLine_def Let_def)

lemma emitRequirementsLine_eq: "emitRequirementsLine d m = requirementsLine d m @ [CHR 0x0A]"
  by (simp add: emitRequirementsLine_def requirementsLine_def moduleLine_def Let_def)

lemma concat_map_unlines: "concat (map (\<lambda>m. f m @ [CHR 0x0A]) ks) = unlines (map f ks)"
  by (simp add: unlines_def comp_def)

lemma fcard_pos: "(0 < fcard A) = (A \<noteq> {||})"
proof (cases "A = {||}")
  case True
  then show ?thesis by (simp add: fcard_fempty)
next
  case False
  have "0 < fcard A"
  proof (rule gr0I)
    assume "fcard A = 0"
    with False show False by (simp add: fcard_0_eq)
  qed
  with False show ?thesis by blast
qed

lemma emitDist_unlines: "emitDist d = unlines (distLines d)"
proof -
  have p: "concat (map (emitProvidesLine d) ks) = unlines (map (providesLine d) ks)" for ks
    by (induction ks) (simp_all add: emitProvidesLine_eq unlines_Nil unlines_Cons)
  have r: "concat (map (emitRequirementsLine d) ks) = unlines (map (requirementsLine d) ks)" for ks
    by (induction ks) (simp_all add: emitRequirementsLine_eq unlines_Nil unlines_Cons)
  show ?thesis
    by (simp add: emitDist_def distLines_def nameLine_def pathnameLine_def p r fcard_pos
        unlines_append unlines_Cons unlines_Nil)
qed

lemma Emit_unlines: "Emit S = unlines (snapshotLines (sort_key Name S))"
proof -
  have "concat (map emitDist ds) = unlines (concat (map distLines ds))" for ds
    by (induction ds) (simp_all add: emitDist_unlines unlines_Nil unlines_append)
  then show ?thesis
    by (simp add: Emit_def header_def snapshotLines_def unlines_append unlines_Cons unlines_Nil)
qed

lemma Split_unlines:
  "\<forall>l \<in> set ls. CHR 0x0A \<notin> set l \<Longrightarrow> Split (unlines ls) (CHR 0x0A) = ls @ [[]]"
proof (induction ls)
  case Nil
  show ?case by (simp add: unlines_Nil Split_no_sep)
next
  case (Cons l ls)
  then have "CHR 0x0A \<notin> set l" by simp
  then have "Split (l @ CHR 0x0A # unlines ls) (CHR 0x0A) = l # Split (unlines ls) (CHR 0x0A)"
    by (rule Split_append)
  with Cons show ?case by (simp add: unlines_Cons)
qed

lemma rawLines_unlines:
  "\<forall>l \<in> set ls. CHR 0x0A \<notin> set l \<Longrightarrow> rawLines (unlines ls) = ls"
  by (simp add: rawLines_def Split_unlines)


lemma reSpace_blank: "reSpace (CHR '' '')"
  by (simp add: reSpace_def)

lemma nameText_takeWhile:
  "nameText m \<Longrightarrow> takeWhile (\<lambda>c. \<not> reSpace c) (m @ CHR '' '' # v) = m"
  by (simp add: nameText_def list_all_iff reSpace_blank takeWhile_append2)

lemma nameText_dropWhile:
  "nameText m \<Longrightarrow> dropWhile (\<lambda>c. \<not> reSpace c) (m @ CHR '' '' # v) = CHR '' '' # v"
  by (simp add: nameText_def list_all_iff reSpace_blank dropWhile_append2)

lemma nameText_hd: "nameText n \<Longrightarrow> n = hd n # tl n \<and> \<not> reSpace (hd n)"
  by (cases n) (simp_all add: nameText_def)

lemma distNameRe_name: "nameText n \<Longrightarrow> distNameRe (''  '' @ n) = Some n"
  by (simp add: distNameRe_def HasPrefix_def nameText_def)

lemma distNameRe_indent: "distNameRe (CHR '' '' # CHR '' '' # CHR '' '' # rest) = None"
  by (simp add: distNameRe_def reSpace_blank)

lemma parseLine_name:
  assumes "nameText n"
  shows "parseLine st (nameLine n)
   = \<lparr>dists = flush st, current = Some (newDist n), inProvides = False, inRequirements = False\<rparr>"
proof -
  define L where "L = ''  '' @ n"
  have a: "\<not> HasPrefix L ''#''" "L \<noteq> ''DISTRIBUTIONS''" "L \<noteq> []"
    by (simp_all add: L_def HasPrefix_def)
  have b: "distNameRe L = Some n" unfolding L_def using assms by (rule distNameRe_name)
  have "parseLine st L
   = \<lparr>dists = flush st, current = Some (newDist n), inProvides = False, inRequirements = False\<rparr>"
    by (simp add: parseLine_def a b flush_def)
  then show ?thesis by (simp only: L_def nameLine_def)
qed

lemma parseLine_pathname:
  assumes "current st = Some c" and "lineText p"
  shows "parseLine st (pathnameLine p)
   = (if p = [] then st else st\<lparr>current := Some (c\<lparr>Pathname := p\<rparr>)\<rparr>)"
proof -
  define L where "L = ''    pathname: '' @ p"
  have a: "\<not> HasPrefix L ''#''" "L \<noteq> ''DISTRIBUTIONS''" "L \<noteq> []"
    by (simp_all add: L_def HasPrefix_def)
  have b: "distNameRe L = None" by (simp add: L_def distNameRe_indent)
  have c: "pathnameRe L = (if p = [] then None else Some p)"
    using assms(2) by (simp add: L_def pathnameRe_def HasPrefix_def reAnyPlus_def lineText_def)
  have d: "p = [] \<Longrightarrow> \<not> providesRe L \<and> \<not> requiresRe L \<and> moduleVerRe L = None"
    by (simp add: L_def providesRe_def requiresRe_def moduleVerRe_def HasPrefix_def)
  have "parseLine st L = (if p = [] then st else st\<lparr>current := Some (c\<lparr>Pathname := p\<rparr>)\<rparr>)"
    using d by (simp add: parseLine_def a b c assms(1))
  then show ?thesis by (simp only: L_def pathnameLine_def)
qed

lemma parseLine_provides:
  assumes "current st = Some c"
  shows "parseLine st ''    provides:'' = st\<lparr>inProvides := True, inRequirements := False\<rparr>"
proof -
  have b: "distNameRe ''    provides:'' = None" by (simp add: distNameRe_indent)
  have c: "pathnameRe ''    provides:'' = None" by (simp add: pathnameRe_def HasPrefix_def)
  show ?thesis
    by (simp add: parseLine_def b c assms providesRe_def) (simp add: HasPrefix_def)
qed

lemma parseLine_requirements:
  assumes "current st = Some c"
  shows "parseLine st ''    requirements:'' = st\<lparr>inRequirements := True, inProvides := False\<rparr>"
proof -
  have b: "distNameRe ''    requirements:'' = None" by (simp add: distNameRe_indent)
  have c: "pathnameRe ''    requirements:'' = None" by (simp add: pathnameRe_def HasPrefix_def)
  show ?thesis
    by (simp add: parseLine_def b c assms providesRe_def requiresRe_def) (simp add: HasPrefix_def)
qed

lemma parseLine_module:
  assumes "current st = Some c" and "nameText m" and "v \<noteq> []" and "CHR 0x0A \<notin> set v"
  shows "parseLine st (moduleLine m v)
   = (if inProvides st then st\<lparr>current := Some (c\<lparr>Provides := fmupd m v (Provides c)\<rparr>)\<rparr>
      else if inRequirements st
      then st\<lparr>current := Some (c\<lparr>Requirements := fmupd m v (Requirements c)\<rparr>)\<rparr>
      else st)"
proof -
  define L where "L = ''      '' @ m @ '' '' @ v"
  have a: "\<not> HasPrefix L ''#''" "L \<noteq> ''DISTRIBUTIONS''" "L \<noteq> []"
    by (simp_all add: L_def HasPrefix_def)
  have b: "distNameRe L = None" by (simp add: L_def distNameRe_indent)
  have c: "pathnameRe L = None" by (simp add: L_def pathnameRe_def HasPrefix_def)
  have d: "\<not> providesRe L" "\<not> requiresRe L"
    by (simp_all add: L_def providesRe_def requiresRe_def)
  have e: "moduleVerRe L = Some (m, v)"
    using assms(2-4)
    by (simp add: L_def moduleVerRe_def HasPrefix_def nameText_takeWhile nameText_dropWhile
        reAnyPlus_def Let_def) (simp add: nameText_def)
  have "parseLine st L
   = (if inProvides st then st\<lparr>current := Some (c\<lparr>Provides := fmupd m v (Provides c)\<rparr>)\<rparr>
      else if inRequirements st
      then st\<lparr>current := Some (c\<lparr>Requirements := fmupd m v (Requirements c)\<rparr>)\<rparr>
      else st)"
    by (simp add: parseLine_def a b c d e assms(1))
  then show ?thesis by (simp only: L_def moduleLine_def)
qed


lemma foldl_fmupd_lookup:
  "fmlookup (foldl (\<lambda>m k. fmupd k (g k) m) m0 ks) x
   = (if x \<in> set ks then Some (g x) else fmlookup m0 x)"
  by (induction ks arbitrary: m0) simp_all

lemma foldl_fmupd_sortedKeys:
  "foldl (\<lambda>m k. fmupd k (f (mapIndex M k)) m) fmempty (sortedKeys M) = fmmap f M"
proof (rule fmap_ext)
  fix x
  show "fmlookup (foldl (\<lambda>m k. fmupd k (f (mapIndex M k)) m) fmempty (sortedKeys M)) x
      = fmlookup (fmmap f M) x"
    by (cases "fmlookup M x")
       (auto simp: foldl_fmupd_lookup sortedKeys_def mapIndex_def fmdom_notI fmdomI dest: fmdom_notD)
qed

lemma fmdom_empty_fmempty: "fmdom m = {||} \<Longrightarrow> m = fmempty"
  by (rule fmap_ext) (auto dest: fmdom_notD)

lemma fold_provides_lines:
  assumes "\<forall>k \<in> set ks. nameText k \<and> g k \<noteq> [] \<and> CHR 0x0A \<notin> set (g k)"
  shows "current st = Some c \<Longrightarrow> inProvides st
     \<Longrightarrow> foldl parseLine st (map (\<lambda>k. moduleLine k (g k)) ks)
       = st\<lparr>current := Some (c\<lparr>Provides := foldl (\<lambda>m k. fmupd k (g k) m) (Provides c) ks\<rparr>)\<rparr>"
  using assms
proof (induction ks arbitrary: st c)
  case Nil
  then show ?case by simp
next
  case (Cons k ks)
  from Cons.prems have k: "nameText k" "g k \<noteq> []" "CHR 0x0A \<notin> set (g k)" by simp_all
  define st1 where "st1 = st\<lparr>current := Some (c\<lparr>Provides := fmupd k (g k) (Provides c)\<rparr>)\<rparr>"
  have step: "parseLine st (moduleLine k (g k)) = st1"
    using parseLine_module [OF Cons.prems(1) k] Cons.prems(2) by (simp add: st1_def)
  have "foldl parseLine st1 (map (\<lambda>k. moduleLine k (g k)) ks)
       = st1\<lparr>current := Some ((c\<lparr>Provides := fmupd k (g k) (Provides c)\<rparr>)
            \<lparr>Provides := foldl (\<lambda>m k. fmupd k (g k) m)
               (Provides (c\<lparr>Provides := fmupd k (g k) (Provides c)\<rparr>)) ks\<rparr>)\<rparr>"
    using Cons.prems by (intro Cons.IH) (simp_all add: st1_def)
  then show ?case by (simp add: step) (simp add: st1_def)
qed

lemma fold_requirements_lines:
  assumes "\<forall>k \<in> set ks. nameText k \<and> g k \<noteq> [] \<and> CHR 0x0A \<notin> set (g k)"
  shows "current st = Some c \<Longrightarrow> \<not> inProvides st \<Longrightarrow> inRequirements st
     \<Longrightarrow> foldl parseLine st (map (\<lambda>k. moduleLine k (g k)) ks)
       = st\<lparr>current :=
              Some (c\<lparr>Requirements := foldl (\<lambda>m k. fmupd k (g k) m) (Requirements c) ks\<rparr>)\<rparr>"
  using assms
proof (induction ks arbitrary: st c)
  case Nil
  then show ?case by simp
next
  case (Cons k ks)
  from Cons.prems have k: "nameText k" "g k \<noteq> []" "CHR 0x0A \<notin> set (g k)" by simp_all
  define st1 where
    "st1 = st\<lparr>current := Some (c\<lparr>Requirements := fmupd k (g k) (Requirements c)\<rparr>)\<rparr>"
  have step: "parseLine st (moduleLine k (g k)) = st1"
    using parseLine_module [OF Cons.prems(1) k] Cons.prems(2,3) by (simp add: st1_def)
  have "foldl parseLine st1 (map (\<lambda>k. moduleLine k (g k)) ks)
       = st1\<lparr>current := Some ((c\<lparr>Requirements := fmupd k (g k) (Requirements c)\<rparr>)
            \<lparr>Requirements := foldl (\<lambda>m k. fmupd k (g k) m)
               (Requirements (c\<lparr>Requirements := fmupd k (g k) (Requirements c)\<rparr>)) ks\<rparr>)\<rparr>"
    using Cons.prems by (intro Cons.IH) (simp_all add: st1_def)
  then show ?case by (simp add: step) (simp add: st1_def)
qed


lemma TLS_is_drop: "\<exists>n. TrimLeftSpace s = drop n s"
proof (induction s rule: TrimLeftSpace.induct)
  case (1 s)
  show ?case
  proof (cases "space_width s = 0")
    case True
    then have "TrimLeftSpace s = drop 0 s" by (simp add: TrimLeftSpace_id)
    then show ?thesis ..
  next
    case False
    with 1 obtain n where "TrimLeftSpace (drop (space_width s) s) = drop n (drop (space_width s) s)"
      by auto
    moreover have "TrimLeftSpace s = TrimLeftSpace (drop (space_width s) s)"
      using False by (subst TrimLeftSpace.simps) simp
    ultimately have "TrimLeftSpace s = drop (n + space_width s) s" by simp
    then show ?thesis ..
  qed
qed

lemma set_TrimSpace: "set (TrimSpace s) \<subseteq> set s"
proof -
  obtain n where n: "TrimLeftSpace s = drop n s" using TLS_is_drop by blast
  obtain k where k: "TrimRightSpace (drop n s) = take k (drop n s)" using TRS_is_take by blast
  have "set (take k (drop n s)) \<subseteq> set s"
    by (meson set_drop_subset set_take_subset subset_trans)
  then show ?thesis by (simp add: TrimSpace_def n k)
qed

lemma set_TrimPrefix: "set (TrimPrefix s p) \<subseteq> set s"
  by (simp add: TrimPrefix_def set_drop_subset)

lemma set_snapshot_normalizeVersion:
  "set (snapshot_normalizeVersion v) \<subseteq> set v \<union> {CHR ''0''}"
proof -
  define v1 where "v1 = TrimSpace v"
  define v2 where
    "v2 = (case Index v1 '','' of Some idx \<Rightarrow> TrimSpace (take idx v1) | None \<Rightarrow> v1)"
  define v6 where
    "v6 = TrimPrefix (TrimPrefix (TrimPrefix (TrimPrefix v2 ''>='') ''>'') ''=='') ''=''"
  have s1: "set v1 \<subseteq> set v" unfolding v1_def by (rule set_TrimSpace)
  have "set v2 \<subseteq> set v1"
  proof (cases "Index v1 '',''")
    case None
    then show ?thesis by (simp add: v2_def)
  next
    case (Some idx)
    have "set (TrimSpace (take idx v1)) \<subseteq> set (take idx v1)" by (rule set_TrimSpace)
    also have "\<dots> \<subseteq> set v1" by (rule set_take_subset)
    finally show ?thesis using Some by (simp add: v2_def)
  qed
  moreover have "set v6 \<subseteq> set v2"
    unfolding v6_def by (meson set_TrimPrefix subset_trans)
  moreover have "set (TrimSpace v6) \<subseteq> set v6" by (rule set_TrimSpace)
  ultimately have s7: "set (TrimSpace v6) \<subseteq> set v" using s1 by blast
  have "snapshot_normalizeVersion v
      = (if v1 = [] then ''0'' else if TrimSpace v6 = [] then ''0'' else TrimSpace v6)"
    by (simp only: snapshot_normalizeVersion_def Let_def v1_def v2_def v6_def)
  with s7 show ?thesis by auto
qed

lemma swl0_last: "space_width_last s = 0 \<Longrightarrow> s \<noteq> [] \<Longrightarrow> \<not> asciiSpace (last s)"
  by (cases "rev s" rule: space_width.cases)
     (auto simp: space_width_last_def last_rev [symmetric] simp del: last_rev split: if_splits)

lemma last_TrimSpace: "TrimSpace x \<noteq> [] \<Longrightarrow> \<not> asciiSpace (last (TrimSpace x))"
  by (rule swl0_last) (simp_all add: TrimSpace_def swl_TRS)

lemma snapshot_normalizeVersion_ne: "snapshot_normalizeVersion v \<noteq> []"
  by (simp add: snapshot_normalizeVersion_def Let_def)

lemma last_snapshot_normalizeVersion: "last (snapshot_normalizeVersion v) \<noteq> CHR 0x0D"
proof -
  have cr: "asciiSpace (CHR 0x0D)" by (simp add: asciiSpace_def)
  have "\<not> asciiSpace (last (snapshot_normalizeVersion v))"
    by (auto simp: snapshot_normalizeVersion_def Let_def asciiSpace_def
        dest: last_TrimSpace [unfolded asciiSpace_def])
  with cr show ?thesis by auto
qed


lemma nameText_no_newline: "nameText k \<Longrightarrow> CHR 0x0A \<notin> set k \<and> last k \<noteq> CHR 0x0D \<and> k \<noteq> []"
  by (cases k rule: rev_cases) (auto simp: nameText_def list_all_iff reSpace_def)

lemma dropCR_id: "l = [] \<or> last l \<noteq> CHR 0x0D \<Longrightarrow> dropCR l = l"
  by (auto simp: dropCR_def)

lemma moduleLine_good:
  assumes "nameText k" and "v \<noteq> []" and "CHR 0x0A \<notin> set v" and "last v \<noteq> CHR 0x0D"
  shows "CHR 0x0A \<notin> set (moduleLine k v) \<and> dropCR (moduleLine k v) = moduleLine k v"
proof -
  have "last (moduleLine k v) = last v" using assms(2) by (simp add: moduleLine_def)
  with assms(4) have "dropCR (moduleLine k v) = moduleLine k v" by (simp add: dropCR_id)
  moreover have "CHR 0x0A \<notin> set (moduleLine k v)"
    using assms(3) nameText_no_newline [OF assms(1)] by (simp add: moduleLine_def)
  ultimately show ?thesis by simp
qed

lemma wellFormed_provides:
  assumes "wellFormed d" and "k \<in> set (sortedKeys (Provides d))"
  shows "nameText k" 
    and "(if mapIndex (Provides d) k = [] then ''undef'' else mapIndex (Provides d) k) \<noteq> []"
    and "CHR 0x0A \<notin> set (if mapIndex (Provides d) k = [] then ''undef''
                           else mapIndex (Provides d) k)"
    and "last (if mapIndex (Provides d) k = [] then ''undef'' else mapIndex (Provides d) k)
           \<noteq> CHR 0x0D"
proof -
  from assms(2) obtain v where v: "fmlookup (Provides d) k = Some v"
    by (auto simp: sortedKeys_def dest: fmdom_notD)
  with assms(1) have nk: "nameText k" and lv: "lineText v"
    by (auto simp: wellFormed_def fmpred_iff)
  have mi: "mapIndex (Provides d) k = v" using v by (simp add: mapIndex_def)
  show "nameText k" by (rule nk)
  show "(if mapIndex (Provides d) k = [] then ''undef'' else mapIndex (Provides d) k) \<noteq> []"
    by simp
  show "CHR 0x0A \<notin> set (if mapIndex (Provides d) k = [] then ''undef''
                           else mapIndex (Provides d) k)"
    using lv by (simp add: mi lineText_def)
  show "last (if mapIndex (Provides d) k = [] then ''undef'' else mapIndex (Provides d) k)
           \<noteq> CHR 0x0D"
    using lv by (auto simp: mi lineText_def)
qed

lemma wellFormed_requirements:
  assumes "wellFormed d" and "k \<in> set (sortedKeys (Requirements d))"
  shows "nameText k"
    and "CHR 0x0A \<notin> set (snapshot_normalizeVersion (mapIndex (Requirements d) k))"
proof -
  from assms(2) obtain v where v: "fmlookup (Requirements d) k = Some v"
    by (auto simp: sortedKeys_def dest: fmdom_notD)
  with assms(1) have nk: "nameText k" and lv: "CHR 0x0A \<notin> set v"
    by (auto simp: wellFormed_def fmpred_iff)
  have mi: "mapIndex (Requirements d) k = v" using v by (simp add: mapIndex_def)
  show "nameText k" by (rule nk)
  show "CHR 0x0A \<notin> set (snapshot_normalizeVersion (mapIndex (Requirements d) k))"
    using lv set_snapshot_normalizeVersion [of v] by (auto simp: mi)
qed

lemma distLines_good:
  assumes "wellFormed d" and "l \<in> set (distLines d)"
  shows "CHR 0x0A \<notin> set l \<and> dropCR l = l"
proof -
  have n: "nameText (Name d)" and p: "lineText (Pathname d)"
    using assms(1) by (simp_all add: wellFormed_def)
  have nl: "CHR 0x0A \<notin> set (nameLine (Name d)) \<and> dropCR (nameLine (Name d)) = nameLine (Name d)"
    using nameText_no_newline [OF n] by (simp add: nameLine_def dropCR_id)
  have pl: "CHR 0x0A \<notin> set (pathnameLine (Pathname d))
      \<and> dropCR (pathnameLine (Pathname d)) = pathnameLine (Pathname d)"
    using p by (auto simp: pathnameLine_def lineText_def dropCR_def)
  have hl: "dropCR ''    provides:'' = ''    provides:''"
    "dropCR ''    requirements:'' = ''    requirements:''"
    by (simp_all add: dropCR_def)
  have pr: "CHR 0x0A \<notin> set (providesLine d k) \<and> dropCR (providesLine d k) = providesLine d k"
    if "k \<in> set (sortedKeys (Provides d))" for k
    unfolding providesLine_def
    by (rule moduleLine_good) (rule wellFormed_provides [OF assms(1) that])+
  have rq: "CHR 0x0A \<notin> set (requirementsLine d k)
      \<and> dropCR (requirementsLine d k) = requirementsLine d k"
    if "k \<in> set (sortedKeys (Requirements d))" for k
    unfolding requirementsLine_def
    by (rule moduleLine_good)
       (simp_all add: wellFormed_requirements [OF assms(1) that] snapshot_normalizeVersion_ne
          last_snapshot_normalizeVersion)
  from assms(2) consider "l = nameLine (Name d)" | "l = pathnameLine (Pathname d)"
    | "l = ''    provides:''" | "l = ''    requirements:''"
    | k where "k \<in> set (sortedKeys (Provides d))" "l = providesLine d k"
    | k where "k \<in> set (sortedKeys (Requirements d))" "l = requirementsLine d k"
    by (auto simp: distLines_def split: if_splits)
  then show ?thesis
  proof cases
    case 1 then show ?thesis using nl by simp
  next
    case 2 then show ?thesis using pl by simp
  next
    case 3 then show ?thesis using hl by simp
  next
    case 4 then show ?thesis using hl by simp
  next
    case 5 then show ?thesis using pr by simp
  next
    case 6 then show ?thesis using rq by simp
  qed
qed

lemma fold_distLines:
  assumes wf: "wellFormed d"
  shows "dists (foldl parseLine st (distLines d)) = flush st
         \<and> current (foldl parseLine st (distLines d)) = Some (canonical d)"
proof -
  have n: "nameText (Name d)" and p: "lineText (Pathname d)"
    using wf by (simp_all add: wellFormed_def)
  define c2 where "c2 = (newDist (Name d))\<lparr>Pathname := Pathname d\<rparr>"
  define st1 where "st1 = \<lparr>dists = flush st, current = Some (newDist (Name d)),
      inProvides = False, inRequirements = False\<rparr>"
  define st2 where "st2 = \<lparr>dists = flush st, current = Some c2,
      inProvides = False, inRequirements = False\<rparr>"
  have s1: "parseLine st (nameLine (Name d)) = st1"
    unfolding st1_def using n by (rule parseLine_name)
  have s2: "parseLine st1 (pathnameLine (Pathname d)) = st2"
    using parseLine_pathname [of st1 "newDist (Name d)" "Pathname d"] p
    by (auto simp: st1_def st2_def c2_def newDist_def)
  define pm where "pm = fmmap (\<lambda>v. if v = [] then ''undef'' else v) (Provides d)"
  define rm where "rm = fmmap snapshot_normalizeVersion (Requirements d)"
  define plines where "plines = (if fmdom (Provides d) \<noteq> {||}
        then ''    provides:'' # map (providesLine d) (sortedKeys (Provides d)) else [])"
  define rlines where "rlines = (if fmdom (Requirements d) \<noteq> {||}
        then ''    requirements:'' # map (requirementsLine d) (sortedKeys (Requirements d))
        else [])"
  have s3: "\<exists>ip. foldl parseLine st2 plines
      = \<lparr>dists = flush st, current = Some (c2\<lparr>Provides := pm\<rparr>),
         inProvides = ip, inRequirements = False\<rparr>"
  proof (cases "fmdom (Provides d) = {||}")
    case True
    then have "Provides d = fmempty" by (rule fmdom_empty_fmempty)
    then have "c2\<lparr>Provides := pm\<rparr> = c2" by (simp add: pm_def c2_def newDist_def)
    with True show ?thesis by (intro exI [of _ False]) (simp add: plines_def st2_def)
  next
    case False
    define st3 where "st3 = st2\<lparr>inProvides := True, inRequirements := False\<rparr>"
    have h: "parseLine st2 ''    provides:'' = st3"
      unfolding st3_def by (rule parseLine_provides) (simp add: st2_def)
    have g: "\<forall>k \<in> set (sortedKeys (Provides d)). nameText k
        \<and> (if mapIndex (Provides d) k = [] then ''undef'' else mapIndex (Provides d) k) \<noteq> []
        \<and> CHR 0x0A \<notin> set (if mapIndex (Provides d) k = [] then ''undef''
                               else mapIndex (Provides d) k)"
      using wellFormed_provides [OF wf] by blast
    have A: "foldl parseLine st3
        (map (\<lambda>k. moduleLine k (if mapIndex (Provides d) k = [] then ''undef''
                                 else mapIndex (Provides d) k)) (sortedKeys (Provides d)))
      = st3\<lparr>current := Some (c2\<lparr>Provides :=
           foldl (\<lambda>m k. fmupd k (if mapIndex (Provides d) k = [] then ''undef''
                                   else mapIndex (Provides d) k) m)
             (Provides c2) (sortedKeys (Provides d))\<rparr>)\<rparr>"
      using g by (intro fold_provides_lines) (simp_all add: st3_def st2_def)
    have B: "Provides c2 = fmempty" by (simp add: c2_def newDist_def)
    have C: "foldl (\<lambda>m k. fmupd k (if mapIndex (Provides d) k = [] then ''undef''
                                   else mapIndex (Provides d) k) m)
             fmempty (sortedKeys (Provides d)) = pm"
      unfolding pm_def
      using foldl_fmupd_sortedKeys [of "\<lambda>v. if v = [] then ''undef'' else v" "Provides d"] .
    have E: "providesLine d = (\<lambda>k. moduleLine k (if mapIndex (Provides d) k = [] then ''undef''
                                 else mapIndex (Provides d) k))"
      by (rule ext) (simp add: providesLine_def)
    have "foldl parseLine st3 (map (providesLine d) (sortedKeys (Provides d)))
      = st3\<lparr>current := Some (c2\<lparr>Provides := pm\<rparr>)\<rparr>"
      unfolding E A B C ..
    with False h show ?thesis by (intro exI [of _ True]) (simp add: plines_def st3_def st2_def)
  qed
  then obtain ip where s3': "foldl parseLine st2 plines
      = \<lparr>dists = flush st, current = Some (c2\<lparr>Provides := pm\<rparr>),
         inProvides = ip, inRequirements = False\<rparr>" by blast
  define st4 where "st4 = \<lparr>dists = flush st, current = Some (c2\<lparr>Provides := pm\<rparr>),
         inProvides = ip, inRequirements = False\<rparr>"
  have s4: "dists (foldl parseLine st4 rlines) = flush st
      \<and> current (foldl parseLine st4 rlines) = Some (c2\<lparr>Provides := pm, Requirements := rm\<rparr>)"
  proof (cases "fmdom (Requirements d) = {||}")
    case True
    then have "Requirements d = fmempty" by (rule fmdom_empty_fmempty)
    then have "c2\<lparr>Provides := pm, Requirements := rm\<rparr> = c2\<lparr>Provides := pm\<rparr>"
      by (simp add: rm_def c2_def newDist_def)
    with True show ?thesis by (simp add: rlines_def st4_def)
  next
    case False
    define st5 where "st5 = st4\<lparr>inRequirements := True, inProvides := False\<rparr>"
    have h: "parseLine st4 ''    requirements:'' = st5"
      unfolding st5_def by (rule parseLine_requirements) (simp add: st4_def)
    have g: "\<forall>k \<in> set (sortedKeys (Requirements d)). nameText k
        \<and> snapshot_normalizeVersion (mapIndex (Requirements d) k) \<noteq> []
        \<and> CHR 0x0A \<notin> set (snapshot_normalizeVersion (mapIndex (Requirements d) k))"
      using wellFormed_requirements [OF wf] by (simp add: snapshot_normalizeVersion_ne)
    have A: "foldl parseLine st5
        (map (\<lambda>k. moduleLine k (snapshot_normalizeVersion (mapIndex (Requirements d) k)))
           (sortedKeys (Requirements d)))
      = st5\<lparr>current := Some ((c2\<lparr>Provides := pm\<rparr>)\<lparr>Requirements :=
           foldl (\<lambda>m k. fmupd k (snapshot_normalizeVersion (mapIndex (Requirements d) k)) m)
             (Requirements (c2\<lparr>Provides := pm\<rparr>)) (sortedKeys (Requirements d))\<rparr>)\<rparr>"
      using g by (intro fold_requirements_lines) (simp_all add: st5_def st4_def)
    have B: "Requirements (c2\<lparr>Provides := pm\<rparr>) = fmempty"
      by (simp add: c2_def newDist_def)
    have C: "foldl (\<lambda>m k. fmupd k (snapshot_normalizeVersion (mapIndex (Requirements d) k)) m)
             fmempty (sortedKeys (Requirements d)) = rm"
      unfolding rm_def
      using foldl_fmupd_sortedKeys [of snapshot_normalizeVersion "Requirements d"] .
    have E: "requirementsLine d
        = (\<lambda>k. moduleLine k (snapshot_normalizeVersion (mapIndex (Requirements d) k)))"
      by (rule ext) (simp add: requirementsLine_def)
    have "foldl parseLine st5 (map (requirementsLine d) (sortedKeys (Requirements d)))
      = st5\<lparr>current := Some ((c2\<lparr>Provides := pm\<rparr>)\<lparr>Requirements := rm\<rparr>)\<rparr>"
      unfolding E A B C ..
    with False h show ?thesis by (simp add: rlines_def st5_def st4_def)
  qed
  have dl: "distLines d = nameLine (Name d) # pathnameLine (Pathname d) # plines @ rlines"
    by (simp add: distLines_def plines_def rlines_def)
  have cd: "c2\<lparr>Provides := pm, Requirements := rm\<rparr> = canonical d"
    by (simp add: c2_def newDist_def canonical_def pm_def rm_def)
  have "foldl parseLine st (distLines d) = foldl parseLine st4 rlines"
    by (simp add: dl s1 s2 s3' st4_def)
  with s4 cd show ?thesis by simp
qed


lemma fold_all_distLines:
  "\<forall>d \<in> set ds. wellFormed d
     \<Longrightarrow> flush (foldl parseLine st (concat (map distLines ds))) = flush st @ map canonical ds"
proof (induction ds arbitrary: st)
  case Nil
  show ?case by simp
next
  case (Cons d ds)
  define st' where "st' = foldl parseLine st (distLines d)"
  from Cons.prems have wf: "wellFormed d" by simp
  from fold_distLines [OF wf, of st] have "flush st' = flush st @ [canonical d]"
    by (simp add: st'_def flush_def)
  moreover have "flush (foldl parseLine st' (concat (map distLines ds)))
      = flush st' @ map canonical ds"
    using Cons.prems by (intro Cons.IH) simp
  ultimately show ?case by (simp add: st'_def)
qed

lemma snapshotLines_good:
  assumes "\<forall>d \<in> set S. wellFormed d" and "l \<in> set (snapshotLines S)"
  shows "CHR 0x0A \<notin> set l \<and> dropCR l = l"
proof -
  from assms(2) consider "l = ''# carton snapshot format: version 1.0''" | "l = ''DISTRIBUTIONS''"
    | d where "d \<in> set S" "l \<in> set (distLines d)"
    by (auto simp: snapshotLines_def)
  then show ?thesis
  proof cases
    case 1 then show ?thesis by (simp add: dropCR_def)
  next
    case 2 then show ?thesis by (simp add: dropCR_def)
  next
    case 3 then show ?thesis using distLines_good [of d l] assms(1) by blast
  qed
qed

lemma rawLines_Emit:
  assumes "sorted_wrt (<) (map Name S)" and "\<forall>d \<in> set S. wellFormed d"
  shows "rawLines (Emit S) = snapshotLines S"
proof -
  have "sorted (map Name S)" using assms(1) by (rule strict_sorted_imp_sorted)
  then have "sort_key Name S = S" by (rule sort_key_id_if_sorted)
  then have "Emit S = unlines (snapshotLines S)" by (simp add: Emit_unlines)
  moreover have "\<forall>l \<in> set (snapshotLines S). CHR 0x0A \<notin> set l"
    using snapshotLines_good [OF assms(2)] by blast
  ultimately show ?thesis by (simp add: rawLines_unlines)
qed

lemma Parse_Emit:
  assumes srt: "sorted_wrt (<) (map Name S)" and wf: "\<forall>d \<in> set S. wellFormed d"
    and short: "\<not> list_ex tooLong (rawLines (Emit S))"
  shows "Parse (Emit S) = Inr (map canonical S)"
proof -
  define ls where "ls = snapshotLines S"
  define init where
    "init = \<lparr>dists = [], current = None, inProvides = False, inRequirements = False\<rparr>"
  have rl: "rawLines (Emit S) = ls" unfolding ls_def using srt wf by (rule rawLines_Emit)
  have nl: "\<not> list_ex tooLong ls" using short unfolding rl .
  then have tw: "takeWhile (\<lambda>l. \<not> tooLong l) ls = ls"
    by (auto simp: list_ex_iff takeWhile_eq_all_conv)
  have dc: "map dropCR ls = ls"
    using snapshotLines_good [OF wf] by (intro map_idI) (simp add: ls_def)
  have h1: "parseLine init ''# carton snapshot format: version 1.0'' = init"
    by (simp add: parseLine_def HasPrefix_def)
  have h2: "parseLine init ''DISTRIBUTIONS'' = init"
    by (simp add: parseLine_def)
  have "foldl parseLine init ls = foldl parseLine init (concat (map distLines S))"
    by (simp add: ls_def snapshotLines_def h1 h2)
  then have "flush (foldl parseLine init ls) = flush init @ map canonical S"
    using fold_all_distLines [OF wf, of init] by simp
  then have fl: "flush (foldl parseLine init ls) = map canonical S"
    by (simp add: init_def flush_def)
  have "Parse (Emit S) = (if list_ex tooLong ls then Inl ErrTooLong
      else Inr (flush (foldl parseLine init ls)))"
    unfolding Parse_def Let_def rl tw dc init_def flush_def ..
  with nl fl show ?thesis by simp
qed

text \<open>
  Claim C3, as the specification states it: parsing the emitted text of a sorted list of
  records returns the list.  The emitter writes the normalized constraint of a
  requirement and does not write the source tag: for one record with the requirement
  \<open>Bar >= 1.0\<close> and the source \<open>cpan\<close>, the parser returns the requirement \<open>Bar 1.0\<close> and
  an empty source.
\<close>

theorem Parse_Emit_counterexample:
  "Parse (Emit [\<lparr>Name = ''Foo-1.0'', Pathname = ''A/AU/AUTHOR/Foo-1.0.tar.gz'',
                 Provides = fmupd ''Foo'' ''1.0'' fmempty,
                 Requirements = fmupd ''Bar'' ''>= 1.0'' fmempty, Source = ''cpan''\<rparr>])
     = Inr [\<lparr>Name = ''Foo-1.0'', Pathname = ''A/AU/AUTHOR/Foo-1.0.tar.gz'',
             Provides = fmupd ''Foo'' ''1.0'' fmempty,
             Requirements = fmupd ''Bar'' ''1.0'' fmempty, Source = []\<rparr>]
   \<and> \<lparr>Name = ''Foo-1.0'', Pathname = ''A/AU/AUTHOR/Foo-1.0.tar.gz'',
       Provides = fmupd ''Foo'' ''1.0'' fmempty,
       Requirements = fmupd ''Bar'' ''1.0'' fmempty, Source = []\<rparr>
     \<noteq> \<lparr>Name = ''Foo-1.0'', Pathname = ''A/AU/AUTHOR/Foo-1.0.tar.gz'',
         Provides = fmupd ''Foo'' ''1.0'' fmempty,
         Requirements = fmupd ''Bar'' ''>= 1.0'' fmempty, Source = ''cpan''\<rparr>"
  by code_simp

text \<open>
  Claim C3, amended.  For every list of records sorted by name without repetition, whose
  names and module names are not empty and have no white space, whose pathnames and
  versions have no newline and no carriage return at their end, and whose emitted lines
  fit the buffer of the scanner (fewer than 65536 bytes), parsing the emitted snapshot
  text returns the records in their canonical form: the same names, pathnames and provided
  modules with \<open>undef\<close> for an empty version, the requirements with their normalized
  constraints, and an empty source tag.  It returns the list itself when the records are
  in canonical form already.
\<close>

theorem Parse_Emit_canonical:
  "sorted_wrt (<) (map Name S) \<and> (\<forall>d \<in> set S. wellFormed d)
   \<and> \<not> list_ex tooLong (rawLines (Emit S))
   \<longrightarrow> Parse (Emit S) = Inr (map canonical S)
       \<and> ((\<forall>d \<in> set S. canonical d = d) \<longrightarrow> Parse (Emit S) = Inr S)"
proof
  assume h: "sorted_wrt (<) (map Name S) \<and> (\<forall>d \<in> set S. wellFormed d)
   \<and> \<not> list_ex tooLong (rawLines (Emit S))"
  then have p: "Parse (Emit S) = Inr (map canonical S)"
    by (intro Parse_Emit) simp_all
  moreover have "Parse (Emit S) = Inr S" if "\<forall>d \<in> set S. canonical d = d"
  proof -
    from that have "map canonical S = S" by (intro map_idI) simp
    with p show ?thesis by simp
  qed
  ultimately show "Parse (Emit S) = Inr (map canonical S)
       \<and> ((\<forall>d \<in> set S. canonical d = d) \<longrightarrow> Parse (Emit S) = Inr S)"
    by blast
qed

theorem Parse_Emit_canonical_witness:
  "Parse (Emit
     [\<lparr>Name = ''Alpha-1.0'', Pathname = ''A/AL/ALPHA/Alpha-1.0.tar.gz'',
       Provides = fmupd ''Alpha'' ''1.0'' fmempty,
       Requirements = fmupd ''Beta'' ''0'' fmempty, Source = []\<rparr>,
      \<lparr>Name = ''Beta-2.0'', Pathname = ''B/BE/BETA/Beta-2.0.tar.gz'',
       Provides = fmupd ''Beta'' ''2.0'' fmempty,
       Requirements = fmempty, Source = []\<rparr>])
   = Inr
     [\<lparr>Name = ''Alpha-1.0'', Pathname = ''A/AL/ALPHA/Alpha-1.0.tar.gz'',
       Provides = fmupd ''Alpha'' ''1.0'' fmempty,
       Requirements = fmupd ''Beta'' ''0'' fmempty, Source = []\<rparr>,
      \<lparr>Name = ''Beta-2.0'', Pathname = ''B/BE/BETA/Beta-2.0.tar.gz'',
       Provides = fmupd ''Beta'' ''2.0'' fmempty,
       Requirements = fmempty, Source = []\<rparr>]"
proof -
  define a where "a = \<lparr>Name = ''Alpha-1.0'', Pathname = ''A/AL/ALPHA/Alpha-1.0.tar.gz'',
       Provides = fmupd ''Alpha'' ''1.0'' fmempty,
       Requirements = fmupd ''Beta'' ''0'' fmempty, Source = []\<rparr>"
  define b where "b = \<lparr>Name = ''Beta-2.0'', Pathname = ''B/BE/BETA/Beta-2.0.tar.gz'',
       Provides = fmupd ''Beta'' ''2.0'' fmempty,
       Requirements = fmempty, Source = []\<rparr>"
  have srt: "sorted_wrt (<) (map Name [a, b])"
    unfolding a_def b_def by code_simp
  have wf: "wellFormed a \<and> wellFormed b"
    unfolding a_def b_def by code_simp
  have short: "\<not> list_ex tooLong (rawLines (Emit [a, b]))"
    unfolding a_def b_def by code_simp
  have can: "canonical a = a \<and> canonical b = b"
    unfolding a_def b_def by code_simp
  from Parse_Emit_canonical [of "[a, b]"] srt wf short can
  have "Parse (Emit [a, b]) = Inr [a, b]" by simp
  then show ?thesis by (simp only: a_def b_def)
qed

end
